theory Spec2Isabelle
  imports Main "HOL-Library.Multiset" "HOL-Library.Sublist"
begin

section \<open>JavaScript values\<close>

text \<open>
  The message bus handles dynamically typed payloads, so the model carries a small universe
  of JavaScript values. Numbers are the integers (platform ids, message ids); an object is
  its list of own properties. Equality of HOL values models \<open>===\<close> and the key equality
  of \<open>Map\<close> on primitives, which is all the bus compares (ids, platform names).
\<close>

datatype jsval =
    JUndefined
  | JNull
  | JBool bool
  | JNum int
  | JStr string
  | JArr "jsval list"
  | JObj "(string \<times> jsval) list"

text \<open>A thrown value: an \<open>Error\<close> or a \<open>TypeError\<close>, with its message.\<close>

datatype jserror = Error string | TypeError string

fun message_of :: "jserror \<Rightarrow> string" where
  "message_of (Error m) = m"
| "message_of (TypeError m) = m"

fun truthy :: "jsval \<Rightarrow> bool" where
  "truthy JUndefined = False"
| "truthy JNull = False"
| "truthy (JBool b) = b"
| "truthy (JNum n) = (n \<noteq> 0)"
| "truthy (JStr s) = (s \<noteq> [])"
| "truthy (JArr xs) = True"
| "truthy (JObj kvs) = True"

text \<open>The operator \<open>a || b\<close>.\<close>

definition js_or :: "jsval \<Rightarrow> jsval \<Rightarrow> jsval" where
  "js_or a b = (if truthy a then a else b)"

text \<open>
  Property read \<open>v.k\<close>: a \<open>TypeError\<close> on \<open>undefined\<close> and \<open>null\<close>, the property's
  value on an object that has it, \<open>undefined\<close> otherwise (none of the keys the bus
  reads is a built-in property of a primitive).
\<close>

definition quoted :: "string \<Rightarrow> string" where
  "quoted k = [CHR 0x27] @ k @ [CHR 0x27]"

fun getProp :: "jsval \<Rightarrow> string \<Rightarrow> jserror + jsval" where
  "getProp JUndefined k =
     Inl (TypeError (''Cannot read properties of undefined (reading '' @ quoted k @ '')''))"
| "getProp JNull k =
     Inl (TypeError (''Cannot read properties of null (reading '' @ quoted k @ '')''))"
| "getProp (JObj kvs) k = Inr (case map_of kvs k of None \<Rightarrow> JUndefined | Some v \<Rightarrow> v)"
| "getProp v k = Inr JUndefined"

text \<open>Sequencing of computations that may throw.\<close>

fun bindE :: "'e + 'a \<Rightarrow> ('a \<Rightarrow> 'e + 'b) \<Rightarrow> 'e + 'b" where
  "bindE (Inl e) f = Inl e"
| "bindE (Inr x) f = f x"

text \<open>The chained read \<open>v.a.b\<close>.\<close>

definition getProp2 :: "jsval \<Rightarrow> string \<Rightarrow> string \<Rightarrow> jserror + jsval" where
  "getProp2 v a b = bindE (getProp v a) (\<lambda>x. getProp x b)"

text \<open>
  \<open>Map.prototype.set\<close> on an insertion-ordered map: an existing key keeps its place and
  takes the new value, a new key goes to the end.
\<close>

fun map_set :: "'k \<Rightarrow> 'v \<Rightarrow> ('k \<times> 'v) list \<Rightarrow> ('k \<times> 'v) list" where
  "map_set k v [] = [(k, v)]"
| "map_set k v ((k', v') # rest) =
     (if k' = k then (k, v) # rest else (k', v') # map_set k v rest)"

section \<open>The canonical message and the bus\<close>

text \<open>
  A canonical message as \<open>normalizeMessage\<close> builds it. The timestamp is the instant
  \<open>moment()\<close> read, in milliseconds (the ISO string the code stores is parsed back to the
  same instant by \<open>moment(msg.timestamp)\<close>).
\<close>

record message =
  id_msg :: string
  platform :: string
  timestamp :: int
  processed :: bool
  reactions :: "jsval list"
  attachments :: "jsval list"
  content :: jsval
  author :: jsval
  channelId :: jsval
  channelName :: jsval
  messageId :: jsval
  type_msg :: jsval

text \<open>One call of an adapter's \<open>sendMessage(channelId, content, options)\<close>.\<close>

record send_call =
  call_platform :: string
  call_channel :: jsval
  call_content :: jsval
  call_options :: jsval

text \<open>
  An adapter is what the bus uses of it: its \<open>sendMessage\<close>, which returns a result or
  throws. It is given the sends made so far, so an adapter may answer differently from
  call to call. An AI agent is its \<open>processMessage\<close>.
\<close>

type_synonym adapter = "send_call list \<Rightarrow> jsval \<Rightarrow> jsval \<Rightarrow> jsval \<Rightarrow> jserror + jsval"

type_synonym agent = "message \<Rightarrow> jserror + jsval"

text \<open>
  The state of a \<open>MessageManager\<close>: the three maps it uses, in insertion order (the
  \<open>channels\<close> map of the constructor is never read or written), the events it has
  emitted, the adapter sends it has made, and the two external sources it reads:
  \<open>uuidv4()\<close> and the clock behind \<open>moment()\<close>, each a sequence with a read position.
\<close>

record manager =
  messages :: "(string \<times> message) list"
  integrations :: "(string \<times> adapter) list"
  aiAgents :: "(jsval \<times> agent) list"
  emitted :: "(string \<times> message) list"
  sendLog :: "send_call list"
  uuidSource :: "nat \<Rightarrow> string"
  uuidDrawn :: nat
  clockSource :: "nat \<Rightarrow> int"
  clockRead :: nat

definition uuidv4 :: "manager \<Rightarrow> string \<times> manager" where
  "uuidv4 s = (uuidSource s (uuidDrawn s), s\<lparr>uuidDrawn := Suc (uuidDrawn s)\<rparr>)"

definition moment_now :: "manager \<Rightarrow> int \<times> manager" where
  "moment_now s = (clockSource s (clockRead s), s\<lparr>clockRead := Suc (clockRead s)\<rparr>)"

definition new_manager :: "(nat \<Rightarrow> string) \<Rightarrow> (nat \<Rightarrow> int) \<Rightarrow> manager" where
  "new_manager us cs =
     \<lparr>messages = [], integrations = [], aiAgents = [], emitted = [], sendLog = [],
      uuidSource = us, uuidDrawn = 0, clockSource = cs, clockRead = 0\<rparr>"

text \<open>
  \<open>registerIntegration\<close> stores the adapter. The listener it installs on the adapter's
  \<open>message\<close> events calls \<open>handleIncomingMessage\<close>: an inbound message is such a call.
\<close>

definition registerIntegration :: "string \<Rightarrow> adapter \<Rightarrow> manager \<Rightarrow> manager" where
  "registerIntegration p integration s =
     s\<lparr>integrations := map_set p integration (integrations s)\<rparr>"

subsection \<open>Normalization\<close>

definition getMessageType :: "jsval \<Rightarrow> jserror + jsval" where
  "getMessageType m =
     bindE (getProp m ''photo'') (\<lambda>photo.
     bindE (getProp m ''video'') (\<lambda>video.
     bindE (getProp m ''audio'') (\<lambda>audio.
     bindE (getProp m ''voice'') (\<lambda>voice.
     bindE (getProp m ''document'') (\<lambda>document.
     bindE (getProp m ''sticker'') (\<lambda>sticker.
       Inr (if truthy photo then JStr ''photo''
            else if truthy video then JStr ''video''
            else if truthy audio then JStr ''audio''
            else if truthy voice then JStr ''voice''
            else if truthy document then JStr ''document''
            else if truthy sticker then JStr ''sticker''
            else JStr ''text'')))))))"

text \<open>The object spread \<open>{...baseMessage, content: ..., ...}\<close>.\<close>

definition with_fields ::
    "message \<Rightarrow> jsval \<Rightarrow> jsval \<Rightarrow> jsval \<Rightarrow> jsval \<Rightarrow> jsval \<Rightarrow> jsval \<Rightarrow> message" where
  "with_fields base c a ci cn mi t =
     base\<lparr>content := c, author := a, channelId := ci, channelName := cn,
          messageId := mi, type_msg := t\<rparr>"

definition normalizeTelegram :: "message \<Rightarrow> jsval \<Rightarrow> jserror + message" where
  "normalizeTelegram base raw =
     bindE (getProp raw ''text'') (\<lambda>text.
     bindE (getProp raw ''caption'') (\<lambda>caption.
     bindE (getProp2 raw ''from'' ''id'') (\<lambda>from_id.
     bindE (getProp2 raw ''from'' ''username'') (\<lambda>username.
     bindE (getProp2 raw ''from'' ''first_name'') (\<lambda>first_name.
     bindE (getProp2 raw ''from'' ''last_name'') (\<lambda>last_name.
     bindE (getProp2 raw ''chat'' ''id'') (\<lambda>chat_id.
     bindE (getProp2 raw ''chat'' ''title'') (\<lambda>title.
     bindE (getProp2 raw ''chat'' ''first_name'') (\<lambda>chat_first_name.
     bindE (getProp raw ''message_id'') (\<lambda>message_id.
     bindE (getMessageType raw) (\<lambda>t.
       Inr (with_fields base
             (js_or text (js_or caption (JStr ''[Media]'')))
             (JObj [(''id'', from_id), (''username'', username),
                    (''firstName'', first_name), (''lastName'', last_name)])
             chat_id
             (js_or title chat_first_name)
             message_id
             t))))))))))))"

definition normalizeSlack :: "message \<Rightarrow> jsval \<Rightarrow> jserror + message" where
  "normalizeSlack base raw =
     bindE (getProp raw ''text'') (\<lambda>text.
     bindE (getProp raw ''user'') (\<lambda>user.
     bindE (getProp raw ''username'') (\<lambda>username.
     bindE (getProp raw ''channel'') (\<lambda>channel.
     bindE (getProp raw ''channel_name'') (\<lambda>channel_name.
     bindE (getProp raw ''ts'') (\<lambda>ts.
     bindE (getProp raw ''subtype'') (\<lambda>subtype.
       Inr (with_fields base
             (js_or text (JStr ''[Media]''))
             (JObj [(''id'', user), (''username'', username)])
             channel
             channel_name
             ts
             (js_or subtype (JStr ''message''))))))))))"

definition normalizeDiscord :: "message \<Rightarrow> jsval \<Rightarrow> jserror + message" where
  "normalizeDiscord base raw =
     bindE (getProp raw ''content'') (\<lambda>c.
     bindE (getProp2 raw ''author'' ''id'') (\<lambda>author_id.
     bindE (getProp2 raw ''author'' ''username'') (\<lambda>username.
     bindE (getProp2 raw ''author'' ''discriminator'') (\<lambda>discriminator.
     bindE (getProp2 raw ''channel'' ''id'') (\<lambda>channel_id.
     bindE (getProp2 raw ''channel'' ''name'') (\<lambda>channel_name.
     bindE (getProp raw ''id'') (\<lambda>native_id.
     bindE (getProp raw ''type'') (\<lambda>t.
       Inr (with_fields base
             (js_or c (JStr ''[Media]''))
             (JObj [(''id'', author_id), (''username'', username),
                    (''discriminator'', discriminator)])
             channel_id
             channel_name
             native_id
             t)))))))))"

text \<open>The expression \<open>v || uuidv4()\<close>: the uuid is drawn only when \<open>v\<close> is falsy.\<close>

definition orUuid :: "jsval \<Rightarrow> manager \<Rightarrow> jsval \<times> manager" where
  "orUuid v s = (if truthy v then (v, s) else (let (u, s') = uuidv4 s in (JStr u, s')))"

text \<open>
  The default branch draws a second uuid when the payload has no \<open>id\<close>. Every read is a
  read of \<open>rawMessage\<close> itself, so either the first one throws or none does.
\<close>

definition normalizeDefault ::
    "message \<Rightarrow> jsval \<Rightarrow> manager \<Rightarrow> (jserror + message) \<times> manager" where
  "normalizeDefault base raw s =
     (case bindE (getProp raw ''content'') (\<lambda>c.
           bindE (getProp raw ''text'') (\<lambda>text.
           bindE (getProp raw ''author'') (\<lambda>a.
           bindE (getProp raw ''channelId'') (\<lambda>ci.
           bindE (getProp raw ''channelName'') (\<lambda>cn.
           bindE (getProp raw ''id'') (\<lambda>native_id.
             Inr (c, text, a, ci, cn, native_id))))))) of
        Inl e \<Rightarrow> (Inl e, s)
      | Inr (c, text, a, ci, cn, native_id) \<Rightarrow>
          (let (mi, s') = orUuid native_id s
           in (Inr (with_fields base
                     (js_or c (js_or text (JStr ''[Unknown]'')))
                     (js_or a (JObj [(''id'', JStr ''unknown''), (''username'', JStr ''Unknown'')]))
                     (js_or ci (JStr ''unknown''))
                     (js_or cn (JStr ''Unknown''))
                     mi
                     (JStr ''message'')), s')))"

definition normalizeMessage ::
    "string \<Rightarrow> jsval \<Rightarrow> manager \<Rightarrow> (jserror + message) \<times> manager" where
  "normalizeMessage p rawMessage s =
     (let (u, s1) = uuidv4 s;
          (now, s2) = moment_now s1;
          baseMessage = \<lparr>id_msg = u, platform = p, timestamp = now, processed = False,
                         reactions = [], attachments = [],
                         content = JUndefined, author = JUndefined, channelId = JUndefined,
                         channelName = JUndefined, messageId = JUndefined,
                         type_msg = JUndefined\<rparr>
      in if p = ''telegram'' then (normalizeTelegram baseMessage rawMessage, s2)
         else if p = ''slack'' then (normalizeSlack baseMessage rawMessage, s2)
         else if p = ''discord'' then (normalizeDiscord baseMessage rawMessage, s2)
         else normalizeDefault baseMessage rawMessage s2)"

subsection \<open>The AI trigger and the AI reply\<close>

text \<open>\<open>String.prototype.startsWith\<close> and \<open>String.prototype.includes\<close>.\<close>

fun startsWith :: "string \<Rightarrow> string \<Rightarrow> bool" where
  "startsWith s [] = True"
| "startsWith [] (p # ps) = False"
| "startsWith (c # cs) (p # ps) = (c = p \<and> startsWith cs ps)"

fun includes_str :: "string \<Rightarrow> string \<Rightarrow> bool" where
  "includes_str [] pat = (pat = [])"
| "includes_str (c # cs) pat = (startsWith (c # cs) pat \<or> includes_str cs pat)"

text \<open>\<open>Map.prototype.has\<close>.\<close>

definition map_has :: "('k \<times> 'v) list \<Rightarrow> 'k \<Rightarrow> bool" where
  "map_has m k = (k \<in> set (map fst m))"

text \<open>
  \<open>message.content.includes('@ai') || message.content.startsWith('/ai') ||
  this.aiAgents.has(message.channelId)\<close>. The two method calls need a string: an array has
  \<open>includes\<close> but no \<open>startsWith\<close>, any other content has neither.
\<close>

definition shouldProcessWithAI :: "manager \<Rightarrow> message \<Rightarrow> jserror + bool" where
  "shouldProcessWithAI s m =
     (case content m of
        JStr c \<Rightarrow>
          Inr (includes_str c ''@ai'' \<or> startsWith c ''/ai'' \<or> map_has (aiAgents s) (channelId m))
      | JArr xs \<Rightarrow>
          (if JStr ''@ai'' \<in> set xs then Inr True
           else Inl (TypeError ''message.content.startsWith is not a function''))
      | JUndefined \<Rightarrow> bindE (getProp JUndefined ''includes'') (\<lambda>_. Inr False)
      | JNull \<Rightarrow> bindE (getProp JNull ''includes'') (\<lambda>_. Inr False)
      | _ \<Rightarrow> Inl (TypeError ''message.content.includes is not a function''))"

definition registerAIAgent :: "jsval \<Rightarrow> agent \<Rightarrow> manager \<Rightarrow> manager" where
  "registerAIAgent k a s = s\<lparr>aiAgents := map_set k a (aiAgents s)\<rparr>"

text \<open>The default value of the parameter \<open>options = {}\<close>, taken when it is \<open>undefined\<close>.\<close>

definition defaultOptions :: "jsval \<Rightarrow> jsval" where
  "defaultOptions options = (if options = JUndefined then JObj [] else options)"

text \<open>
  \<open>sendMessage\<close>. The adapter's send, the synthesized payload (always in Telegram's
  shape), its normalization under the platform's own branch, the store and the event.
  The model runs the asynchronous function to completion in one step.
\<close>

definition sendMessage ::
    "string \<Rightarrow> jsval \<Rightarrow> jsval \<Rightarrow> jsval \<Rightarrow> manager \<Rightarrow> (jserror + jsval) \<times> manager" where
  "sendMessage p ch c options s =
     (case map_of (integrations s) p of
        None \<Rightarrow> (Inl (Error (''No integration found for platform: '' @ p)), s)
      | Some integration \<Rightarrow>
          (let s1 = s\<lparr>sendLog := sendLog s @
                        [\<lparr>call_platform = p, call_channel = ch, call_content = c,
                          call_options = defaultOptions options\<rparr>]\<rparr>
           in case integration (sendLog s) ch c (defaultOptions options) of
                Inl e \<Rightarrow> (Inl e, s1)
              | Inr result \<Rightarrow>
                  (case getProp result ''messageId'' of
                     Inl e \<Rightarrow> (Inl e, s1)
                   | Inr rid \<Rightarrow>
                       (let (mid, s2) = orUuid rid s1;
                            raw = JObj [(''text'', c),
                                        (''from'', JObj [(''id'', JStr ''bot''),
                                                         (''username'', JStr ''UnifiMessenger'')]),
                                        (''chat'', JObj [(''id'', ch)]),
                                        (''message_id'', mid)]
                        in case normalizeMessage p raw s2 of
                             (Inl e, s3) \<Rightarrow> (Inl e, s3)
                           | (Inr message, s3) \<Rightarrow>
                               (Inr result,
                                s3\<lparr>messages := map_set (id_msg message) message (messages s3),
                                   emitted := emitted s3 @ [(''message_sent'', message)]\<rparr>)))))"

text \<open>
  The responder of a message: \<open>this.aiAgents.get(message.channelId) ||
  this.aiAgents.get('global')\<close> (a registered agent is an object, hence truthy).
\<close>

definition aiAgentFor :: "manager \<Rightarrow> message \<Rightarrow> agent option" where
  "aiAgentFor s m =
     (case map_of (aiAgents s) (channelId m) of
        Some a \<Rightarrow> Some a
      | None \<Rightarrow> map_of (aiAgents s) (JStr ''global''))"

text \<open>
  \<open>processWithAI\<close> catches everything it throws, so it only changes the state. The reply
  goes out through \<open>sendMessage\<close> with the default options \<open>{}\<close>.
\<close>

definition processWithAI :: "message \<Rightarrow> manager \<Rightarrow> manager" where
  "processWithAI m s =
     (case aiAgentFor s m of
        None \<Rightarrow> s
      | Some aiAgent \<Rightarrow>
          (case aiAgent m of
             Inl e \<Rightarrow> s
           | Inr response \<Rightarrow>
               (if truthy response
                then snd (sendMessage (platform m) (channelId m) response (JObj []) s)
                else s)))"

text \<open>
  \<open>handleIncomingMessage\<close>. The AI task it starts is not awaited; the model runs it
  right after the event, before the next one is handled.
\<close>

definition handleIncomingMessage ::
    "string \<Rightarrow> jsval \<Rightarrow> manager \<Rightarrow> (jserror + unit) \<times> manager" where
  "handleIncomingMessage p rawMessage s =
     (case normalizeMessage p rawMessage s of
        (Inl e, s1) \<Rightarrow> (Inl e, s1)
      | (Inr m, s1) \<Rightarrow>
          (let s2 = s1\<lparr>messages := map_set (id_msg m) m (messages s1),
                       emitted := emitted s1 @ [(''message'', m)]\<rparr>
           in case shouldProcessWithAI s2 m of
                Inl e \<Rightarrow> (Inl e, s2)
              | Inr True \<Rightarrow> (Inr (), processWithAI m s2)
              | Inr False \<Rightarrow> (Inr (), s2)))"

subsection \<open>Cross-channel send\<close>

text \<open>An entry of the result list: \<open>{platform, channelId, result}\<close> or \<open>{platform, error}\<close>.\<close>

datatype delivery = Delivered string jsval jsval | Failed string string

text \<open>
  \<open>getActiveChannels\<close>: the channel ids of the stored messages of a platform, each
  once, in the order of their first message.
\<close>

definition getActiveChannels :: "string \<Rightarrow> manager \<Rightarrow> jsval list" where
  "getActiveChannels p s =
     foldl (\<lambda>channels (k, m).
              if platform m = p \<and> channelId m \<notin> set channels then channels @ [channelId m]
              else channels)
       [] (messages s)"

text \<open>What \<open>for (const channelId of channels)\<close> iterates over.\<close>

fun iterate :: "jsval \<Rightarrow> jserror + jsval list" where
  "iterate (JArr xs) = Inr xs"
| "iterate (JStr cs) = Inr (map (\<lambda>c. JStr [c]) cs)"
| "iterate v = Inl (TypeError ''channels is not iterable'')"

text \<open>\<open>options.channels || this.getActiveChannels(platform)\<close>, as the list the loop walks.\<close>

definition resolveChannels :: "jsval \<Rightarrow> string \<Rightarrow> manager \<Rightarrow> jserror + jsval list" where
  "resolveChannels options p s =
     bindE (getProp options ''channels'') (\<lambda>chs.
       if truthy chs then iterate chs else Inr (getActiveChannels p s))"

text \<open>
  The inner loop, inside the \<open>try\<close>: it stops at the first send that throws and hands
  the error to the \<open>catch\<close> of its platform.
\<close>

fun sendToChannels ::
    "string \<Rightarrow> jsval list \<Rightarrow> jsval \<Rightarrow> jsval \<Rightarrow> delivery list \<Rightarrow> manager \<Rightarrow>
     jserror option \<times> delivery list \<times> manager" where
  "sendToChannels p [] c options results s = (None, results, s)"
| "sendToChannels p (ch # chs) c options results s =
     (case sendMessage p ch c options s of
        (Inl e, s') \<Rightarrow> (Some e, results, s')
      | (Inr result, s') \<Rightarrow>
          sendToChannels p chs c options (results @ [Delivered p ch result]) s')"

text \<open>The body of the outer loop for one platform: the \<open>try\<close> and its \<open>catch\<close>.\<close>

definition tryPlatform ::
    "string \<Rightarrow> jsval \<Rightarrow> jsval \<Rightarrow> delivery list \<Rightarrow> manager \<Rightarrow> delivery list \<times> manager" where
  "tryPlatform p c options results s =
     (case resolveChannels options p s of
        Inl e \<Rightarrow> (results @ [Failed p (message_of e)], s)
      | Inr chs \<Rightarrow>
          (case sendToChannels p chs c options results s of
             (None, results', s') \<Rightarrow> (results', s')
           | (Some e, results', s') \<Rightarrow> (results' @ [Failed p (message_of e)], s')))"

fun forPlatforms ::
    "string list \<Rightarrow> jsval \<Rightarrow> jsval \<Rightarrow> delivery list \<Rightarrow> manager \<Rightarrow> delivery list \<times> manager" where
  "forPlatforms [] c options results s = (results, s)"
| "forPlatforms (p # ps) c options results s =
     (case tryPlatform p c options results s of
        (results', s') \<Rightarrow> forPlatforms ps c options results' s')"

definition sendCrossChannelMessage :: "jsval \<Rightarrow> jsval \<Rightarrow> manager \<Rightarrow> delivery list \<times> manager" where
  "sendCrossChannelMessage c options s =
     forPlatforms (map fst (integrations s)) c (defaultOptions options) [] s"

subsection \<open>Reading the store\<close>

text \<open>
  The filter object. A field that is absent is \<open>undefined\<close>. \<open>since\<close> is the instant
  \<open>moment(filters.since)\<close> denotes when the field is given as a timestamp (an ISO string,
  a \<open>Date\<close>, a moment: all truthy), in milliseconds.
\<close>

record filters =
  f_platform :: jsval
  f_channelId :: jsval
  f_author :: jsval
  f_since :: "int option"
  f_limit :: "int option"

definition no_filters :: filters where
  "no_filters = \<lparr>f_platform = JUndefined, f_channelId = JUndefined, f_author = JUndefined,
                  f_since = None, f_limit = None\<rparr>"

text \<open>\<open>Array.prototype.filter\<close> with a callback that may throw.\<close>

fun filterE :: "('a \<Rightarrow> jserror + bool) \<Rightarrow> 'a list \<Rightarrow> jserror + 'a list" where
  "filterE f [] = Inr []"
| "filterE f (x # xs) =
     bindE (f x) (\<lambda>b. bindE (filterE f xs) (\<lambda>ys. Inr (if b then x # ys else ys)))"

text \<open>\<open>Array.prototype.slice(start)\<close>.\<close>

definition slice_from :: "int \<Rightarrow> 'a list \<Rightarrow> 'a list" where
  "slice_from start xs =
     (if start < 0 then drop (nat (int (length xs) + start)) xs else drop (nat start) xs)"

text \<open>
  \<open>Array.prototype.sort(comparefn)\<close>, modelled as an insertion sort: an element goes
  before the first one it compares below, as the binary insertion of Node's engine places
  it. The comparator of \<open>getMessages\<close> answers 1 on equal timestamps in both directions,
  so the order among messages of equal timestamp depends on the engine's algorithm; the
  properties proved of the result speak of its elements and of its order by timestamp only.
\<close>

fun insert_cmp :: "('a \<Rightarrow> 'a \<Rightarrow> int) \<Rightarrow> 'a \<Rightarrow> 'a list \<Rightarrow> 'a list" where
  "insert_cmp cmp x [] = [x]"
| "insert_cmp cmp x (y # ys) = (if cmp x y < 0 then x # y # ys else y # insert_cmp cmp x ys)"

definition array_sort :: "('a \<Rightarrow> 'a \<Rightarrow> int) \<Rightarrow> 'a list \<Rightarrow> 'a list" where
  "array_sort cmp xs = foldl (\<lambda>acc x. insert_cmp cmp x acc) [] xs"

definition by_timestamp :: "message \<Rightarrow> message \<Rightarrow> int" where
  "by_timestamp a b = (if timestamp a < timestamp b then - 1 else 1)"

definition author_matches :: "jsval \<Rightarrow> message \<Rightarrow> jserror + bool" where
  "author_matches a msg =
     bindE (getProp (author msg) ''username'') (\<lambda>username.
       if username = a then Inr True
       else bindE (getProp (author msg) ''id'') (\<lambda>i. Inr (i = a)))"

definition getMessages :: "filters \<Rightarrow> manager \<Rightarrow> jserror + message list" where
  "getMessages fs s =
     (let m0 = map snd (messages s);
          m1 = (if truthy (f_platform fs)
                then filter (\<lambda>msg. JStr (platform msg) = f_platform fs) m0 else m0);
          m2 = (if truthy (f_channelId fs)
                then filter (\<lambda>msg. channelId msg = f_channelId fs) m1 else m1)
      in bindE (if truthy (f_author fs) then filterE (author_matches (f_author fs)) m2
                else Inr m2) (\<lambda>m3.
           let m4 = (case f_since fs of
                       Some t \<Rightarrow> filter (\<lambda>msg. t < timestamp msg) m3
                     | None \<Rightarrow> m3);
               m5 = (case f_limit fs of
                       Some n \<Rightarrow> if n \<noteq> 0 then slice_from (- n) m4 else m4
                     | None \<Rightarrow> m4)
           in Inr (array_sort by_timestamp m5)))"

subsection \<open>The life of a bus\<close>

text \<open>
  The operations that reach the state of a bus: an inbound message from an adapter, the
  public sends, a direct call of \<open>processWithAI\<close> and the two registrations.
\<close>

datatype event =
    Incoming string jsval
  | Send string jsval jsval jsval
  | CrossChannel jsval jsval
  | ProcessAI message
  | RegisterIntegration string adapter
  | RegisterAIAgent jsval agent

fun step :: "manager \<Rightarrow> event \<Rightarrow> manager" where
  "step s (Incoming p raw) = snd (handleIncomingMessage p raw s)"
| "step s (Send p ch c options) = snd (sendMessage p ch c options s)"
| "step s (CrossChannel c options) = snd (sendCrossChannelMessage c options s)"
| "step s (ProcessAI m) = processWithAI m s"
| "step s (RegisterIntegration p a) = registerIntegration p a s"
| "step s (RegisterAIAgent k a) = registerAIAgent k a s"

definition run :: "event list \<Rightarrow> manager \<Rightarrow> manager" where
  "run evs s = foldl step s evs"

text \<open>
  What the bus keeps true of its store: every key is the id of its message and is one of
  the uuids drawn so far, and no key occurs twice.
\<close>

definition store_ok :: "manager \<Rightarrow> bool" where
  "store_ok s =
     (distinct (map fst (messages s)) \<and>
      list_all (\<lambda>(k, m). id_msg m = k \<and> k \<in> uuidSource s ` {..<uuidDrawn s}) (messages s))"

text \<open>A step that only reads the two external sources.\<close>

definition only_draws :: "manager \<Rightarrow> manager \<Rightarrow> bool" where
  "only_draws s s' =
     (messages s' = messages s \<and> integrations s' = integrations s \<and>
      aiAgents s' = aiAgents s \<and> emitted s' = emitted s \<and> sendLog s' = sendLog s \<and>
      uuidSource s' = uuidSource s \<and> clockSource s' = clockSource s \<and>
      uuidDrawn s \<le> uuidDrawn s')"

text \<open>The store only grows at its end, and the uuid source only advances.\<close>

definition grows :: "manager \<Rightarrow> manager \<Rightarrow> bool" where
  "grows s s' =
     (prefix (messages s) (messages s') \<and> uuidSource s' = uuidSource s \<and>
      uuidDrawn s \<le> uuidDrawn s')"

text \<open>
  The entries one platform contributes to the result list: deliveries of that platform,
  then at most one error entry of that platform, which is the last.
\<close>

fun segment_ok :: "string \<Rightarrow> delivery list \<Rightarrow> bool" where
  "segment_ok p [] = True"
| "segment_ok p [Failed q e] = (q = p)"
| "segment_ok p (Delivered q ch r # rest) = (q = p \<and> segment_ok p rest)"
| "segment_ok p (Failed q e # d # rest) = False"

text \<open>The adapter sends made between two states of the bus.\<close>

definition sent_since :: "manager \<Rightarrow> manager \<Rightarrow> send_call list" where
  "sent_since s s' = drop (length (sendLog s)) (sendLog s')"

text \<open>The entry \<open>sendMessage\<close> adds to the log when it calls an adapter.\<close>

definition the_call :: "string \<Rightarrow> jsval \<Rightarrow> jsval \<Rightarrow> jsval \<Rightarrow> send_call" where
  "the_call p ch c options =
     \<lparr>call_platform = p, call_channel = ch, call_content = c, call_options = options\<rparr>"

text \<open>
  Between two states, messages were only added at the end of the store, all of platforms
  in \<open>P\<close>, sends were only added to the log, and the adapters are the same.
\<close>

definition adds_for :: "string set \<Rightarrow> manager \<Rightarrow> manager \<Rightarrow> bool" where
  "adds_for P s s' =
     (\<exists>new calls. messages s' = messages s @ new \<and> list_all (\<lambda>(k, m). platform m \<in> P) new \<and>
        sendLog s' = sendLog s @ calls \<and> integrations s' = integrations s)"

text \<open>
  What the cross-channel send is to do, as relations. \<open>channel_walk p c options chs s g s'\<close>:
  from state \<open>s\<close>, the channels \<open>chs\<close> of platform \<open>p\<close> are sent to in order; each send
  that returns is recorded as a delivery; the first send that throws is recorded as an
  error entry and ends the walk, the channels after it being left out. \<open>g\<close> is the list
  of entries and \<open>s'\<close> the state reached.
\<close>

inductive channel_walk ::
    "string \<Rightarrow> jsval \<Rightarrow> jsval \<Rightarrow> jsval list \<Rightarrow> manager \<Rightarrow> delivery list \<Rightarrow> manager \<Rightarrow> bool"
  for p :: string and c :: jsval and options :: jsval where
    walk_done: "channel_walk p c options [] s [] s"
  | walk_delivered:
      "sendMessage p ch c options s = (Inr r, t) \<Longrightarrow>
       channel_walk p c options chs t g s' \<Longrightarrow>
       channel_walk p c options (ch # chs) s (Delivered p ch r # g) s'"
  | walk_failed:
      "sendMessage p ch c options s = (Inl e, t) \<Longrightarrow>
       channel_walk p c options (ch # chs) s [Failed p (message_of e)] t"

text \<open>
  \<open>cross_walk c options destinations ps s results s'\<close>: the platforms \<open>ps\<close> are taken in
  order, each with its own destination list; a platform whose destinations cannot be
  resolved contributes one error entry; every other platform contributes the entries of
  the walk of its channels, whatever the platforms before it contributed.
\<close>

inductive cross_walk ::
    "jsval \<Rightarrow> jsval \<Rightarrow> (string \<Rightarrow> jserror + jsval list) \<Rightarrow> string list \<Rightarrow> manager \<Rightarrow>
     delivery list \<Rightarrow> manager \<Rightarrow> bool"
  for c :: jsval and options :: jsval and destinations :: "string \<Rightarrow> jserror + jsval list" where
    cross_done: "cross_walk c options destinations [] s [] s"
  | cross_platform:
      "destinations p = Inr chs \<Longrightarrow>
       channel_walk p c options chs s g t \<Longrightarrow>
       cross_walk c options destinations ps t rest s' \<Longrightarrow>
       cross_walk c options destinations (p # ps) s (g @ rest) s'"
  | cross_unresolved:
      "destinations p = Inl e \<Longrightarrow>
       cross_walk c options destinations ps s rest s' \<Longrightarrow>
       cross_walk c options destinations (p # ps) s (Failed p (message_of e) # rest) s'"

code_pred channel_walk .

code_pred cross_walk .

subsection \<open>Example data\<close>

text \<open>
  A uuid source without repetition, a clock, a fresh bus over them and a message, for the
  concrete instances below.
\<close>

definition example_uuids :: "nat \<Rightarrow> string" where
  "example_uuids n = ''uuid-'' @ replicate n (CHR ''x'')"

definition example_clock :: "nat \<Rightarrow> int" where
  "example_clock n = 1000 * int n"

definition example_bus :: manager where
  "example_bus = new_manager example_uuids example_clock"

definition example_message :: "string \<Rightarrow> string \<Rightarrow> jsval \<Rightarrow> jsval \<Rightarrow> int \<Rightarrow> message" where
  "example_message i p ch c t =
     \<lparr>id_msg = i, platform = p, timestamp = t, processed = False, reactions = [],
      attachments = [], content = c,
      author = JObj [(''id'', JNum 1), (''username'', JStr ''bob'')],
      channelId = ch, channelName = JStr ''Team'', messageId = JNum 99,
      type_msg = JStr ''text''\<rparr>"

text \<open>A store of three messages, inserted out of timestamp order.\<close>

definition example_store :: manager where
  "example_store =
     example_bus\<lparr>messages :=
       [(''u1'', example_message ''u1'' ''telegram'' (JNum 42) (JStr ''third'') 3000),
        (''u2'', example_message ''u2'' ''slack'' (JStr ''C1'') (JStr ''first'') 1000),
        (''u3'', example_message ''u3'' ''telegram'' (JNum 42) (JStr ''second'') 2000)]\<rparr>"

text \<open>
  A bus with two adapters, registered in this order: Slack, whose send always throws, and
  Telegram, whose send always succeeds; and the options of a cross-channel send to the
  channels c1 and c2.
\<close>

definition failing_adapter :: adapter where
  "failing_adapter h ch c options = Inl (Error ''boom'')"

definition working_adapter :: adapter where
  "working_adapter h ch c options = Inr (JObj [(''messageId'', JNum 7)])"

definition example_two_adapters :: manager where
  "example_two_adapters =
     registerIntegration ''telegram'' working_adapter
       (registerIntegration ''slack'' failing_adapter example_bus)"

definition example_channels :: jsval where
  "example_channels = JObj [(''channels'', JArr [JStr ''c1'', JStr ''c2''])]"

section \<open>Adapter reconnection\<close>

text \<open>
  The fields of \<open>BaseIntegration\<close> that \<open>handleReconnect\<close> uses, with what it does to
  the outside: the delays it hands to \<open>setTimeout\<close>, the errors it emits and the number
  of times it has called \<open>connect()\<close>.
\<close>

record base_integration =
  reconnectAttempts :: int
  maxReconnectAttempts :: int
  reconnectDelay :: int
  timers :: "int list"
  errors :: "string list"
  connectCalls :: nat

definition new_integration :: base_integration where
  "new_integration =
     \<lparr>reconnectAttempts = 0, maxReconnectAttempts = 5, reconnectDelay = 1000,
      timers = [], errors = [], connectCalls = 0\<rparr>"

text \<open>
  \<open>handleReconnect\<close>, with each timer run when it is due. \<open>connect k\<close> tells whether the
  call number \<open>k\<close> of \<open>connect()\<close> succeeds.
\<close>

function handleReconnect :: "(nat \<Rightarrow> bool) \<Rightarrow> base_integration \<Rightarrow> base_integration" where
  "handleReconnect connect s =
     (if reconnectAttempts s \<ge> maxReconnectAttempts s
      then s\<lparr>errors := errors s @ [''Max reconnect attempts reached'']\<rparr>
      else
        (let s1 = s\<lparr>reconnectAttempts := reconnectAttempts s + 1\<rparr>;
             s2 = s1\<lparr>timers := timers s1 @ [reconnectDelay s1 * reconnectAttempts s1]\<rparr>;
             s3 = s2\<lparr>connectCalls := Suc (connectCalls s2)\<rparr>
         in if connect (connectCalls s2) then s3\<lparr>reconnectAttempts := 0\<rparr>
            else handleReconnect connect s3))"
  by pat_completeness auto
termination
  by (relation "measure (\<lambda>(connect, s). nat (maxReconnectAttempts s - reconnectAttempts s))")
     auto

declare handleReconnect.simps [simp del]

section \<open>Properties\<close>

subsection \<open>Strings and maps\<close>

lemma startsWith_prefix: "startsWith s p \<longleftrightarrow> (\<exists>rest. s = p @ rest)"
  by (induction s p rule: startsWith.induct) auto

lemma includes_sublist: "includes_str s p \<longleftrightarrow> (\<exists>pre post. s = pre @ p @ post)"
proof (induction s)
  case Nil
  then show ?case by auto
next
  case (Cons c cs)
  show ?case
  proof
    assume "includes_str (c # cs) p"
    then consider "startsWith (c # cs) p" | "includes_str cs p" by auto
    then show "\<exists>pre post. c # cs = pre @ p @ post"
    proof cases
      case 1
      then obtain rest where "c # cs = p @ rest" using startsWith_prefix by blast
      then have "c # cs = [] @ p @ rest" by simp
      then show ?thesis by blast
    next
      case 2
      then obtain pre post where "cs = pre @ p @ post" using Cons.IH by blast
      then have "c # cs = (c # pre) @ p @ post" by simp
      then show ?thesis by blast
    qed
  next
    assume "\<exists>pre post. c # cs = pre @ p @ post"
    then obtain pre post where eq: "c # cs = pre @ p @ post" by blast
    show "includes_str (c # cs) p"
    proof (cases pre)
      case Nil
      with eq have "startsWith (c # cs) p" using startsWith_prefix by auto
      then show ?thesis by simp
    next
      case (Cons a pre')
      with eq have "cs = pre' @ p @ post" by simp
      then have "includes_str cs p" using Cons.IH by blast
      then show ?thesis by simp
    qed
  qed
qed




subsection \<open>The store under normalization and sending\<close>

lemma bindE_eq_Inr: "bindE x f = Inr y \<longleftrightarrow> (\<exists>a. x = Inr a \<and> f a = Inr y)"
  by (cases x) auto

lemma with_fields_base [simp]:
  "id_msg (with_fields base c a ci cn mi t) = id_msg base"
  "platform (with_fields base c a ci cn mi t) = platform base"
  "timestamp (with_fields base c a ci cn mi t) = timestamp base"
  by (simp_all add: with_fields_def)

lemma normalizeTelegram_base:
  "normalizeTelegram base raw = Inr m \<Longrightarrow>
     id_msg m = id_msg base \<and> platform m = platform base \<and> timestamp m = timestamp base"
  by (auto simp: normalizeTelegram_def bindE_eq_Inr)

lemma normalizeSlack_base:
  "normalizeSlack base raw = Inr m \<Longrightarrow>
     id_msg m = id_msg base \<and> platform m = platform base \<and> timestamp m = timestamp base"
  by (auto simp: normalizeSlack_def bindE_eq_Inr)

lemma normalizeDiscord_base:
  "normalizeDiscord base raw = Inr m \<Longrightarrow>
     id_msg m = id_msg base \<and> platform m = platform base \<and> timestamp m = timestamp base"
  by (auto simp: normalizeDiscord_def bindE_eq_Inr)

lemma normalizeDefault_base:
  "normalizeDefault base raw s = (Inr m, s') \<Longrightarrow>
     id_msg m = id_msg base \<and> platform m = platform base \<and> timestamp m = timestamp base"
  by (auto simp: normalizeDefault_def split: sum.splits prod.splits)

lemma normalizeMessage_id:
  assumes "normalizeMessage p raw s = (Inr m, s')"
  shows "id_msg m = uuidSource s (uuidDrawn s)" "platform m = p"
    "timestamp m = clockSource s (clockRead s)"
  using assms
  by (auto simp: normalizeMessage_def uuidv4_def moment_now_def Let_def
      dest!: normalizeTelegram_base normalizeSlack_base normalizeDiscord_base normalizeDefault_base
      split: if_splits)

lemma orUuid_only_draws: "orUuid v s = (x, s') \<Longrightarrow> only_draws s s'"
  by (auto simp: orUuid_def uuidv4_def only_draws_def split: if_splits)

lemma normalizeDefault_only_draws: "normalizeDefault base raw s = (r, s') \<Longrightarrow> only_draws s s'"
  by (auto simp: normalizeDefault_def only_draws_def split: sum.splits prod.splits
      dest!: orUuid_only_draws)

lemma normalizeMessage_only_draws:
  assumes "normalizeMessage p raw s = (r, s')"
  shows "only_draws s s'" "uuidDrawn s < uuidDrawn s'"
  using assms
  by (auto simp: normalizeMessage_def uuidv4_def moment_now_def Let_def only_draws_def
      split: if_splits dest!: normalizeDefault_only_draws)

lemma map_set_fresh: "k \<notin> fst ` set m \<Longrightarrow> map_set k v m = m @ [(k, v)]"
  by (induction m) auto

lemma grows_refl: "grows s s"
  by (simp add: grows_def)

lemma grows_trans: "grows s t \<Longrightarrow> grows t u \<Longrightarrow> grows s u"
  by (auto simp: grows_def)

lemma only_draws_grows: "only_draws s s' \<Longrightarrow> grows s s'"
  by (simp add: only_draws_def grows_def)

lemma only_draws_store_ok: "only_draws s s' \<Longrightarrow> store_ok s \<Longrightarrow> store_ok s'"
  by (fastforce simp: only_draws_def store_ok_def list_all_iff)

lemma store_ok_fresh:
  assumes "store_ok s" and "inj (uuidSource s)" and "uuidDrawn s \<le> n"
  shows "uuidSource s n \<notin> fst ` set (messages s)"
proof
  assume "uuidSource s n \<in> fst ` set (messages s)"
  then obtain m where "(uuidSource s n, m) \<in> set (messages s)" by auto
  with assms(1) have "uuidSource s n \<in> uuidSource s ` {..<uuidDrawn s}"
    by (auto simp: store_ok_def list_all_iff)
  then obtain i where "i < uuidDrawn s" "uuidSource s n = uuidSource s i" by auto
  with assms(2) have "n = i" by (auto dest: injD)
  with \<open>i < uuidDrawn s\<close> assms(3) show False by simp
qed

lemma store_ok_add:
  assumes ok: "store_ok s" and inj: "inj (uuidSource s)"
    and d1: "only_draws s t" and d2: "only_draws t u" and lt: "uuidDrawn t < uuidDrawn u"
    and i: "id_msg m = uuidSource t (uuidDrawn t)"
  shows "store_ok (u\<lparr>messages := map_set (id_msg m) m (messages u), emitted := e\<rparr>)"
    and "grows s (u\<lparr>messages := map_set (id_msg m) m (messages u), emitted := e\<rparr>)"
proof -
  have src: "uuidSource t = uuidSource s" "uuidSource u = uuidSource s"
    and msgs: "messages u = messages s"
    and le: "uuidDrawn s \<le> uuidDrawn t"
    using d1 d2 by (auto simp: only_draws_def)
  have fresh: "id_msg m \<notin> fst ` set (messages s)"
    using store_ok_fresh[OF ok inj le] i src by simp
  then have eq: "map_set (id_msg m) m (messages u) = messages s @ [(id_msg m, m)]"
    by (simp add: msgs map_set_fresh)
  have "id_msg m \<in> uuidSource s ` {..<uuidDrawn u}"
    using i lt src by auto
  moreover have "list_all (\<lambda>(k, m). id_msg m = k \<and> k \<in> uuidSource s ` {..<uuidDrawn u}) (messages s)"
    using ok le lt by (fastforce simp: store_ok_def list_all_iff)
  ultimately show "store_ok (u\<lparr>messages := map_set (id_msg m) m (messages u), emitted := e\<rparr>)"
    using ok fresh by (simp add: store_ok_def eq src)
  show "grows s (u\<lparr>messages := map_set (id_msg m) m (messages u), emitted := e\<rparr>)"
    using le lt by (simp add: grows_def eq src)
qed

lemma sendMessage_inv:
  assumes ok: "store_ok s" and inj: "inj (uuidSource s)"
    and run: "sendMessage p ch c options s = (r, s')"
  shows "store_ok s' \<and> grows s s' \<and> integrations s' = integrations s"
proof (cases "map_of (integrations s) p")
  case None
  with run ok show ?thesis by (simp add: sendMessage_def grows_refl)
next
  case (Some integration)
  let ?s1 = "s\<lparr>sendLog := sendLog s @
                [\<lparr>call_platform = p, call_channel = ch, call_content = c,
                  call_options = defaultOptions options\<rparr>]\<rparr>"
  have ok1: "store_ok ?s1" using ok by (simp add: store_ok_def)
  have inj1: "inj (uuidSource ?s1)" using inj by simp
  have g1: "grows s ?s1" by (simp add: grows_def)
  show ?thesis
  proof (cases "integration (sendLog s) ch c (defaultOptions options)")
    case (Inl e)
    with run Some have "s' = ?s1" by (simp add: sendMessage_def)
    with ok1 g1 show ?thesis by simp
  next
    case (Inr result)
    show ?thesis
    proof (cases "getProp result ''messageId''")
      case (Inl e)
      with run Some Inr have "s' = ?s1" by (simp add: sendMessage_def)
      with ok1 g1 show ?thesis by simp
    next
      case rid: (Inr rid)
      obtain mid s2 where o: "orUuid rid ?s1 = (mid, s2)" by (cases "orUuid rid ?s1")
      let ?raw = "JObj [(''text'', c),
                        (''from'', JObj [(''id'', JStr ''bot''),
                                         (''username'', JStr ''UnifiMessenger'')]),
                        (''chat'', JObj [(''id'', ch)]),
                        (''message_id'', mid)]"
      obtain nr s3 where n: "normalizeMessage p ?raw s2 = (nr, s3)"
        by (cases "normalizeMessage p ?raw s2")
      have d1: "only_draws ?s1 s2" using o by (rule orUuid_only_draws)
      have d2: "only_draws s2 s3" and lt: "uuidDrawn s2 < uuidDrawn s3"
        using normalizeMessage_only_draws[OF n] by auto
      have int: "integrations s3 = integrations s"
        using d1 d2 by (simp add: only_draws_def)
      show ?thesis
      proof (cases nr)
        case (Inl e)
        with run Some Inr rid o n have "s' = s3" by (simp add: sendMessage_def)
        moreover have "store_ok s3"
          using ok1 d1 d2 by (blast intro: only_draws_store_ok)
        moreover have "grows s s3"
          using g1 d1 d2 by (blast intro: grows_trans only_draws_grows)
        ultimately show ?thesis using int by simp
      next
        case m: (Inr m)
        with run Some Inr rid o n
        have s': "s' = s3\<lparr>messages := map_set (id_msg m) m (messages s3),
                          emitted := emitted s3 @ [(''message_sent'', m)]\<rparr>"
          by (simp add: sendMessage_def)
        have i: "id_msg m = uuidSource s2 (uuidDrawn s2)"
          using normalizeMessage_id(1) n m by simp
        show ?thesis
          using store_ok_add[OF ok1 inj1 d1 d2 lt i] g1 int
          by (auto simp: s' intro: grows_trans)
      qed
    qed
  qed
qed

subsection \<open>Uniqueness of ids\<close>

lemma processWithAI_inv:
  assumes "store_ok s" and "inj (uuidSource s)"
  shows "store_ok (processWithAI m s) \<and> grows s (processWithAI m s)"
proof -
  have "\<And>response. store_ok (snd (sendMessage (platform m) (channelId m) response (JObj []) s)) \<and>
          grows s (snd (sendMessage (platform m) (channelId m) response (JObj []) s))"
    using sendMessage_inv[OF assms] by (metis prod.collapse)
  then show ?thesis
    using assms(1) by (auto simp: processWithAI_def grows_refl split: option.splits sum.splits)
qed

lemma handleIncomingMessage_inv:
  assumes ok: "store_ok s" and inj: "inj (uuidSource s)"
  shows "store_ok (snd (handleIncomingMessage p raw s)) \<and>
         grows s (snd (handleIncomingMessage p raw s))"
proof -
  obtain nr s1 where n: "normalizeMessage p raw s = (nr, s1)"
    by (cases "normalizeMessage p raw s")
  have d: "only_draws s s1" and lt: "uuidDrawn s < uuidDrawn s1"
    using normalizeMessage_only_draws[OF n] by auto
  show ?thesis
  proof (cases nr)
    case (Inl e)
    with n have "snd (handleIncomingMessage p raw s) = s1"
      by (simp add: handleIncomingMessage_def)
    then show ?thesis
      using ok d by (auto intro: only_draws_store_ok only_draws_grows)
  next
    case (Inr m)
    let ?s2 = "s1\<lparr>messages := map_set (id_msg m) m (messages s1),
                   emitted := emitted s1 @ [(''message'', m)]\<rparr>"
    have i: "id_msg m = uuidSource s (uuidDrawn s)"
      using normalizeMessage_id(1) n Inr by simp
    have d0: "only_draws s s" by (simp add: only_draws_def)
    have ok2: "store_ok ?s2" and g2: "grows s ?s2"
      using store_ok_add[OF ok inj d0 d lt i] by auto
    have inj2: "inj (uuidSource ?s2)" using inj g2 by (simp add: grows_def)
    have "snd (handleIncomingMessage p raw s) = ?s2 \<or>
          snd (handleIncomingMessage p raw s) = processWithAI m ?s2"
      using n Inr
      by (auto simp: handleIncomingMessage_def Let_def split: sum.splits bool.splits)
    then show ?thesis
      using ok2 g2 processWithAI_inv[OF ok2 inj2, of m] by (auto intro: grows_trans)
  qed
qed

lemma sendToChannels_inv:
  assumes "store_ok s" and "inj (uuidSource s)"
    and "sendToChannels p chs c options results s = (e, results', s')"
  shows "store_ok s' \<and> grows s s' \<and> integrations s' = integrations s"
  using assms
proof (induction chs arbitrary: results s)
  case Nil
  then show ?case by (simp add: grows_refl)
next
  case (Cons ch chs)
  obtain r s1 where sm: "sendMessage p ch c options s = (r, s1)"
    by (cases "sendMessage p ch c options s")
  have inv1: "store_ok s1" "grows s s1" "integrations s1 = integrations s"
    using sendMessage_inv[OF Cons.prems(1,2) sm] by auto
  show ?case
  proof (cases r)
    case (Inl err)
    with Cons.prems(3) sm have "s' = s1" by simp
    with inv1 show ?thesis by simp
  next
    case (Inr result)
    with Cons.prems(3) sm
    have rec: "sendToChannels p chs c options (results @ [Delivered p ch result]) s1 =
                 (e, results', s')" by simp
    have "inj (uuidSource s1)" using Cons.prems(2) inv1(2) by (simp add: grows_def)
    from Cons.IH[OF inv1(1) this rec] inv1 show ?thesis
      by (auto intro: grows_trans)
  qed
qed

lemma tryPlatform_inv:
  assumes "store_ok s" and "inj (uuidSource s)"
    and "tryPlatform p c options results s = (results', s')"
  shows "store_ok s' \<and> grows s s' \<and> integrations s' = integrations s"
proof (cases "resolveChannels options p s")
  case (Inl e)
  with assms show ?thesis by (simp add: tryPlatform_def grows_refl)
next
  case (Inr chs)
  obtain e rs t where st: "sendToChannels p chs c options results s = (e, rs, t)"
    by (cases "sendToChannels p chs c options results s") auto
  with assms(3) Inr have "s' = t"
    by (auto simp: tryPlatform_def split: option.splits)
  with sendToChannels_inv[OF assms(1,2) st] show ?thesis by simp
qed

lemma forPlatforms_inv:
  assumes "store_ok s" and "inj (uuidSource s)"
    and "forPlatforms ps c options results s = (results', s')"
  shows "store_ok s' \<and> grows s s' \<and> integrations s' = integrations s"
  using assms
proof (induction ps arbitrary: results s)
  case Nil
  then show ?case by (simp add: grows_refl)
next
  case (Cons p ps)
  obtain rs t where tp: "tryPlatform p c options results s = (rs, t)"
    by (cases "tryPlatform p c options results s")
  have inv1: "store_ok t" "grows s t" "integrations t = integrations s"
    using tryPlatform_inv[OF Cons.prems(1,2) tp] by auto
  have rec: "forPlatforms ps c options rs t = (results', s')"
    using Cons.prems(3) tp by simp
  have "inj (uuidSource t)" using Cons.prems(2) inv1(2) by (simp add: grows_def)
  from Cons.IH[OF inv1(1) this rec] inv1 show ?case
    by (auto intro: grows_trans)
qed

lemma step_inv:
  assumes "store_ok s" and "inj (uuidSource s)"
  shows "store_ok (step s ev) \<and> grows s (step s ev)"
proof (cases ev)
  case (Incoming p raw)
  then show ?thesis using handleIncomingMessage_inv[OF assms] by simp
next
  case (Send p ch c options)
  then show ?thesis
    using sendMessage_inv[OF assms, of p ch c options] by (simp add: prod_eq_iff)
next
  case (CrossChannel c options)
  then show ?thesis
    using forPlatforms_inv[OF assms, of "map fst (integrations s)" c "defaultOptions options" "[]"]
    by (simp add: sendCrossChannelMessage_def prod_eq_iff)
next
  case (ProcessAI m)
  then show ?thesis using processWithAI_inv[OF assms] by simp
next
  case (RegisterIntegration p a)
  then show ?thesis
    using assms by (simp add: registerIntegration_def store_ok_def grows_def)
next
  case (RegisterAIAgent k a)
  then show ?thesis
    using assms by (simp add: registerAIAgent_def store_ok_def grows_def)
qed

lemma run_inv:
  assumes "store_ok s" and "inj (uuidSource s)"
  shows "store_ok (run evs s) \<and> grows s (run evs s)"
  using assms
proof (induction evs arbitrary: s)
  case Nil
  then show ?case by (simp add: run_def grows_refl)
next
  case (Cons ev evs)
  have 1: "store_ok (step s ev)" "grows s (step s ev)"
    using step_inv[OF Cons.prems] by auto
  then have "inj (uuidSource (step s ev))" using Cons.prems(2) by (simp add: grows_def)
  from Cons.IH[OF 1(1) this] 1(2) show ?case
    by (auto simp: run_def intro: grows_trans)
qed

lemma run_append: "run (evs1 @ evs2) s = run evs2 (run evs1 s)"
  by (simp add: run_def)

lemma inj_example_uuids: "inj example_uuids"
proof (rule injI)
  fix m n assume "example_uuids m = example_uuids n"
  then have "length (replicate m (CHR ''x'')) = length (replicate n (CHR ''x''))"
    by (simp add: example_uuids_def)
  then show "m = n" by simp
qed

text \<open>
  C8. On a bus created with a uuid source that never repeats, after any sequence of
  inbound events, sends, cross-channel sends, AI calls and registrations, the stored
  messages have pairwise distinct ids, and the store at any earlier moment is an initial
  segment of the store at any later one: a stored message is never overwritten and its
  id never given to another message.
\<close>

theorem C8_ids_unique:
  assumes "inj us"
  shows "distinct (map (\<lambda>(k, m). id_msg m) (messages (run evs (new_manager us cs)))) \<and>
         (\<forall>evs1 evs2. evs = evs1 @ evs2 \<longrightarrow>
            prefix (messages (run evs1 (new_manager us cs)))
                   (messages (run evs (new_manager us cs))))"
proof -
  let ?s0 = "new_manager us cs"
  have ok0: "store_ok ?s0" by (simp add: store_ok_def new_manager_def)
  have inj0: "inj (uuidSource ?s0)" using assms by (simp add: new_manager_def)
  have "store_ok (run evs ?s0)" using run_inv[OF ok0 inj0] by simp
  then have m: "\<forall>x \<in> set (messages (run evs ?s0)). (\<lambda>(k, m). id_msg m) x = fst x"
    and df: "distinct (map fst (messages (run evs ?s0)))"
    by (auto simp: store_ok_def list_all_iff)
  have eq: "map (\<lambda>(k, m). id_msg m) (messages (run evs ?s0)) = map fst (messages (run evs ?s0))"
    using m by (intro map_cong) auto
  have d: "distinct (map (\<lambda>(k, m). id_msg m) (messages (run evs ?s0)))"
    using df by (simp only: eq)
  have "prefix (messages (run evs1 ?s0)) (messages (run evs ?s0))" if "evs = evs1 @ evs2"
    for evs1 evs2
  proof -
    have ok1: "store_ok (run evs1 ?s0)" and g1: "grows ?s0 (run evs1 ?s0)"
      using run_inv[OF ok0 inj0, of evs1] by auto
    have "inj (uuidSource (run evs1 ?s0))" using inj0 g1 by (simp add: grows_def)
    from run_inv[OF ok1 this, of evs2] show ?thesis
      by (simp add: that run_append grows_def)
  qed
  with d show ?thesis by blast
qed

theorem C8_ids_unique_witness:
  "inj example_uuids \<and>
   map (\<lambda>(k, m). id_msg m)
     (messages (run [RegisterIntegration ''telegram''
                       (\<lambda>h ch c opts. Inr (JObj [(''messageId'', JNum 7)])),
                     Incoming ''telegram''
                       (JObj [(''text'', JStr ''hi''),
                              (''from'', JObj [(''id'', JNum 1), (''username'', JStr ''bob'')]),
                              (''chat'', JObj [(''id'', JNum 42), (''title'', JStr ''Team'')]),
                              (''message_id'', JNum 99)]),
                     Send ''telegram'' (JNum 42) (JStr ''hello'') (JObj [])]
                (new_manager example_uuids example_clock))) = [''uuid-'', ''uuid-x'']"
proof -
  have "map (\<lambda>(k, m). id_msg m)
     (messages (run [RegisterIntegration ''telegram''
                       (\<lambda>h ch c opts. Inr (JObj [(''messageId'', JNum 7)])),
                     Incoming ''telegram''
                       (JObj [(''text'', JStr ''hi''),
                              (''from'', JObj [(''id'', JNum 1), (''username'', JStr ''bob'')]),
                              (''chat'', JObj [(''id'', JNum 42), (''title'', JStr ''Team'')]),
                              (''message_id'', JNum 99)]),
                     Send ''telegram'' (JNum 42) (JStr ''hello'') (JObj [])]
                (new_manager example_uuids example_clock))) = [''uuid-'', ''uuid-x'']"
    by (simp add: run_def new_manager_def registerIntegration_def handleIncomingMessage_def
        normalizeMessage_def uuidv4_def moment_now_def normalizeTelegram_def getMessageType_def
        getProp2_def with_fields_def js_or_def shouldProcessWithAI_def map_has_def
        sendMessage_def orUuid_def example_uuids_def defaultOptions_def)
  then show ?thesis
    using C8_ids_unique[OF inj_example_uuids, of _ example_clock] inj_example_uuids by simp
qed

subsection \<open>Cross-channel send\<close>

lemma defaultOptions_idem: "defaultOptions (defaultOptions options) = defaultOptions options"
  by (simp add: defaultOptions_def)

lemma adds_for_refl: "adds_for P s s"
  by (simp add: adds_for_def)

lemma adds_for_trans: "adds_for P s t \<Longrightarrow> adds_for Q t u \<Longrightarrow> adds_for (P \<union> Q) s u"
  by (auto simp: adds_for_def list_all_iff)

lemma sendMessage_adds:
  assumes ok: "store_ok s" and inj: "inj (uuidSource s)"
    and run: "sendMessage p ch c options s = (r, s')"
  shows "adds_for {p} s s' \<and>
         (map_of (integrations s) p \<noteq> None \<longrightarrow>
            (\<exists>calls. sendLog s' = sendLog s @ the_call p ch c (defaultOptions options) # calls))"
proof (cases "map_of (integrations s) p")
  case None
  with run show ?thesis by (simp add: sendMessage_def adds_for_refl)
next
  case (Some integration)
  let ?s1 = "s\<lparr>sendLog := sendLog s @
                [\<lparr>call_platform = p, call_channel = ch, call_content = c,
                  call_options = defaultOptions options\<rparr>]\<rparr>"
  have ok1: "store_ok ?s1" using ok by (simp add: store_ok_def)
  have inj1: "inj (uuidSource ?s1)" using inj by simp
  have a1: "adds_for {p} s ?s1" by (simp add: adds_for_def)
  have l1: "sendLog ?s1 = sendLog s @ [the_call p ch c (defaultOptions options)]" by (simp add: the_call_def)
  have goal: "adds_for {p} s s' \<and> sendLog s' = sendLog s @ [the_call p ch c (defaultOptions options)]"
  proof (cases "integration (sendLog s) ch c (defaultOptions options)")
    case (Inl e)
    with run Some have "s' = ?s1" by (simp add: sendMessage_def)
    with a1 l1 show ?thesis by simp
  next
    case (Inr result)
    show ?thesis
    proof (cases "getProp result ''messageId''")
      case (Inl e)
      with run Some Inr have "s' = ?s1" by (simp add: sendMessage_def)
      with a1 l1 show ?thesis by simp
    next
      case rid: (Inr rid)
      obtain mid s2 where o: "orUuid rid ?s1 = (mid, s2)" by (cases "orUuid rid ?s1")
      let ?raw = "JObj [(''text'', c),
                        (''from'', JObj [(''id'', JStr ''bot''),
                                         (''username'', JStr ''UnifiMessenger'')]),
                        (''chat'', JObj [(''id'', ch)]),
                        (''message_id'', mid)]"
      obtain nr s3 where n: "normalizeMessage p ?raw s2 = (nr, s3)"
        by (cases "normalizeMessage p ?raw s2")
      have d1: "only_draws ?s1 s2" using o by (rule orUuid_only_draws)
      have d2: "only_draws s2 s3" and lt: "uuidDrawn s2 < uuidDrawn s3"
        using normalizeMessage_only_draws[OF n] by auto
      have same: "messages s3 = messages s" "sendLog s3 = sendLog s @ [the_call p ch c (defaultOptions options)]"
        "integrations s3 = integrations s" "uuidSource s2 = uuidSource s"
        "uuidDrawn s \<le> uuidDrawn s2"
        using d1 d2 l1 by (simp_all add: only_draws_def)
      show ?thesis
      proof (cases nr)
        case (Inl e)
        with run Some Inr rid o n have "s' = s3" by (simp add: sendMessage_def)
        with same show ?thesis by (simp add: adds_for_def)
      next
        case m: (Inr m)
        with run Some Inr rid o n
        have s': "s' = s3\<lparr>messages := map_set (id_msg m) m (messages s3),
                          emitted := emitted s3 @ [(''message_sent'', m)]\<rparr>"
          by (simp add: sendMessage_def)
        have i: "id_msg m = uuidSource s2 (uuidDrawn s2)" and pm: "platform m = p"
          using normalizeMessage_id(1,2) n m by simp_all
        have "id_msg m \<notin> fst ` set (messages s)"
          using store_ok_fresh[OF ok inj same(5)] i same(4) by simp
        then have "map_set (id_msg m) m (messages s3) = messages s @ [(id_msg m, m)]"
          by (simp add: same(1) map_set_fresh)
        then show ?thesis
          using same pm by (simp add: s' adds_for_def)
      qed
    qed
  qed
  then show ?thesis by simp
qed

lemma sendMessage_Inr_registered:
  "sendMessage p ch c options s = (Inr x, s') \<Longrightarrow> map_of (integrations s) p \<noteq> None"
  by (cases "map_of (integrations s) p") (simp_all add: sendMessage_def)

lemma sent_since_append:
  "sendLog s' = sendLog s @ calls \<Longrightarrow> sent_since s s' = calls"
  by (simp add: sent_since_def)

lemma sent_since_trans:
  assumes "adds_for P s t" and "adds_for Q t u"
  shows "sent_since s u = sent_since s t @ sent_since t u"
  using assms by (auto simp: adds_for_def sent_since_def)

lemma getActiveChannels_other:
  assumes "adds_for P s t" and "q \<notin> P"
  shows "getActiveChannels q t = getActiveChannels q s"
proof -
  obtain new where m: "messages t = messages s @ new"
    and n: "list_all (\<lambda>(k, m). platform m \<in> P) new"
    using assms(1) by (auto simp: adds_for_def)
  have "foldl (\<lambda>channels (k, m).
              if platform m = q \<and> channelId m \<notin> set channels then channels @ [channelId m]
              else channels) acc new = acc" for acc
    using n assms(2) by (induction new arbitrary: acc) auto
  then show ?thesis by (simp add: getActiveChannels_def m)
qed

lemma resolveChannels_other:
  assumes "adds_for P s t" and "q \<notin> P"
  shows "resolveChannels options q t = resolveChannels options q s"
  by (simp only: resolveChannels_def getActiveChannels_other[OF assms])

lemma segment_ok_delivered:
  "segment_ok p (map (\<lambda>(ch, r). Delivered p ch r) oks)"
  by (induction oks) auto

lemma segment_ok_failed:
  "segment_ok p (map (\<lambda>(ch, r). Delivered p ch r) oks @ [Failed p e])"
  by (induction oks) auto

lemma sendToChannels_shape:
  assumes "store_ok s" and "inj (uuidSource s)"
    and "sendToChannels p chs c options results s = (e, results', s')"
  shows "\<exists>oks. results' = results @ map (\<lambda>(ch, r). Delivered p ch r) oks \<and>
           adds_for {p} s s' \<and>
           (\<forall>ch rest. chs = ch # rest \<longrightarrow> map_of (integrations s) p \<noteq> None \<longrightarrow>
              the_call p ch c (defaultOptions options) \<in> set (sent_since s s')) \<and>
           (\<forall>(ch, r) \<in> set oks. the_call p ch c (defaultOptions options) \<in> set (sent_since s s'))"
  using assms
proof (induction chs arbitrary: results s)
  case Nil
  then have "results' = results @ map (\<lambda>(ch, r). Delivered p ch r) []" "s' = s" by simp_all
  then show ?case using adds_for_refl by fastforce
next
  case (Cons ch chs)
  obtain r s1 where sm: "sendMessage p ch c options s = (r, s1)"
    by (cases "sendMessage p ch c options s")
  have inv1: "store_ok s1" "grows s s1" "integrations s1 = integrations s"
    using sendMessage_inv[OF Cons.prems(1,2) sm] by auto
  have a1: "adds_for {p} s s1"
    and c1: "map_of (integrations s) p \<noteq> None \<Longrightarrow> the_call p ch c (defaultOptions options) \<in> set (sent_since s s1)"
    using sendMessage_adds[OF Cons.prems(1,2) sm] by (auto simp: sent_since_append)
  show ?case
  proof (cases r)
    case (Inl err)
    with Cons.prems(3) sm have "results' = results @ map (\<lambda>(ch, r). Delivered p ch r) []"
      and "s' = s1" by simp_all
    with a1 c1 show ?thesis by fastforce
  next
    case (Inr result)
    with Cons.prems(3) sm
    have rec: "sendToChannels p chs c options (results @ [Delivered p ch result]) s1 =
                 (e, results', s')" by simp
    have inj1: "inj (uuidSource s1)" using Cons.prems(2) inv1(2) by (simp add: grows_def)
    from Cons.IH[OF inv1(1) inj1 rec] obtain oks where
      r': "results' = (results @ [Delivered p ch result]) @ map (\<lambda>(ch, r). Delivered p ch r) oks"
      and a2: "adds_for {p} s1 s'"
      and c2: "\<forall>(ch, r) \<in> set oks. the_call p ch c (defaultOptions options) \<in> set (sent_since s1 s')"
      by blast
    have reg: "map_of (integrations s) p \<noteq> None"
      using sm Inr by (auto dest: sendMessage_Inr_registered)
    have ss: "sent_since s s' = sent_since s s1 @ sent_since s1 s'"
      using a1 a2 by (rule sent_since_trans)
    have "results' = results @ map (\<lambda>(ch, r). Delivered p ch r) ((ch, result) # oks)"
      using r' by simp
    moreover have "adds_for {p} s s'"
      using adds_for_trans[OF a1 a2] by simp
    moreover have "the_call p ch c (defaultOptions options) \<in> set (sent_since s s')"
      using c1[OF reg] ss by simp
    moreover have "\<forall>(ch, r) \<in> set ((ch, result) # oks).
                     the_call p ch c (defaultOptions options) \<in> set (sent_since s s')"
      using c2 c1[OF reg] ss by auto
    ultimately show ?thesis by blast
  qed
qed

lemma tryPlatform_shape:
  assumes "store_ok s" and "inj (uuidSource s)"
    and "tryPlatform p c options results s = (results', s')"
  shows "\<exists>seg. results' = results @ seg \<and> segment_ok p seg \<and> adds_for {p} s s' \<and>
           (\<forall>ch rest. resolveChannels options p s = Inr (ch # rest) \<longrightarrow>
              map_of (integrations s) p \<noteq> None \<longrightarrow>
              the_call p ch c (defaultOptions options) \<in> set (sent_since s s')) \<and>
           (\<forall>q ch r. Delivered q ch r \<in> set seg \<longrightarrow>
              the_call q ch c (defaultOptions options) \<in> set (sent_since s s'))"
proof (cases "resolveChannels options p s")
  case (Inl e)
  with assms(3) have r: "results' = results @ [Failed p (message_of e)]" and s': "s' = s"
    by (simp_all add: tryPlatform_def)
  show ?thesis
  proof (intro exI conjI)
    show "results' = results @ [Failed p (message_of e)]" by (rule r)
    show "segment_ok p [Failed p (message_of e)]" by simp
    show "adds_for {p} s s'" unfolding s' by (rule adds_for_refl)
    show "\<forall>ch rest. resolveChannels options p s = Inr (ch # rest) \<longrightarrow>
              map_of (integrations s) p \<noteq> None \<longrightarrow>
              the_call p ch c (defaultOptions options) \<in> set (sent_since s s')"
      using Inl by simp
    show "\<forall>q ch r. Delivered q ch r \<in> set [Failed p (message_of e)] \<longrightarrow>
              the_call q ch c (defaultOptions options) \<in> set (sent_since s s')"
      by simp
  qed
next
  case (Inr chs)
  obtain e rs t where st: "sendToChannels p chs c options results s = (e, rs, t)"
    by (cases "sendToChannels p chs c options results s") auto
  from sendToChannels_shape[OF assms(1,2) st] obtain oks where
    rs: "rs = results @ map (\<lambda>(ch, r). Delivered p ch r) oks"
    and a: "adds_for {p} s t"
    and c1: "\<forall>ch rest. chs = ch # rest \<longrightarrow> map_of (integrations s) p \<noteq> None \<longrightarrow>
              the_call p ch c (defaultOptions options) \<in> set (sent_since s t)"
    and c2: "\<forall>(ch, r) \<in> set oks. the_call p ch c (defaultOptions options) \<in> set (sent_since s t)"
    by blast
  have s': "s' = t" using assms(3) Inr st by (auto simp: tryPlatform_def split: option.splits)
  have first: "\<forall>ch rest. resolveChannels options p s = Inr (ch # rest) \<longrightarrow>
              map_of (integrations s) p \<noteq> None \<longrightarrow>
              the_call p ch c (defaultOptions options) \<in> set (sent_since s s')"
    unfolding s' using c1 Inr by simp
  have d: "\<forall>q ch r. Delivered q ch r \<in> set (map (\<lambda>(ch, r). Delivered p ch r) oks) \<longrightarrow>
              the_call q ch c (defaultOptions options) \<in> set (sent_since s s')"
    unfolding s' using c2 by auto
  show ?thesis
  proof (cases e)
    case None
    with assms(3) Inr st rs
    have r: "results' = results @ map (\<lambda>(ch, r). Delivered p ch r) oks"
      by (simp add: tryPlatform_def)
    show ?thesis
    proof (intro exI conjI)
      show "results' = results @ map (\<lambda>(ch, r). Delivered p ch r) oks" by (rule r)
      show "segment_ok p (map (\<lambda>(ch, r). Delivered p ch r) oks)"
        by (rule segment_ok_delivered)
      show "adds_for {p} s s'" unfolding s' by (rule a)
      show "\<forall>ch rest. resolveChannels options p s = Inr (ch # rest) \<longrightarrow>
              map_of (integrations s) p \<noteq> None \<longrightarrow>
              the_call p ch c (defaultOptions options) \<in> set (sent_since s s')"
        by (rule first)
      show "\<forall>q ch r. Delivered q ch r \<in> set (map (\<lambda>(ch, r). Delivered p ch r) oks) \<longrightarrow>
              the_call q ch c (defaultOptions options) \<in> set (sent_since s s')"
        by (rule d)
    qed
  next
    case (Some err)
    let ?seg = "map (\<lambda>(ch, r). Delivered p ch r) oks @ [Failed p (message_of err)]"
    from Some assms(3) Inr st rs have r: "results' = results @ ?seg"
      by (simp add: tryPlatform_def)
    show ?thesis
    proof (intro exI conjI)
      show "results' = results @ ?seg" by (rule r)
      show "segment_ok p ?seg" by (rule segment_ok_failed)
      show "adds_for {p} s s'" unfolding s' by (rule a)
      show "\<forall>ch rest. resolveChannels options p s = Inr (ch # rest) \<longrightarrow>
              map_of (integrations s) p \<noteq> None \<longrightarrow>
              the_call p ch c (defaultOptions options) \<in> set (sent_since s s')"
        by (rule first)
      show "\<forall>q ch r. Delivered q ch r \<in> set ?seg \<longrightarrow>
              the_call q ch c (defaultOptions options) \<in> set (sent_since s s')"
        using d by simp
    qed
  qed
qed

text \<open>The two relations determine the entries and the state reached.\<close>

lemma channel_walk_unique:
  assumes "channel_walk p c options chs s g s'" and "channel_walk p c options chs s g2 s2"
  shows "g2 = g \<and> s2 = s'"
  using assms
proof (induction arbitrary: g2 s2 rule: channel_walk.induct)
  case (walk_done s)
  then show ?case by (auto elim: channel_walk.cases)
next
  case (walk_delivered ch s r t chs g s')
  from walk_delivered.prems walk_delivered.hyps(1) obtain g' where
    "g2 = Delivered p ch r # g'" "channel_walk p c options chs t g' s2"
    by (auto elim: channel_walk.cases)
  with walk_delivered.IH show ?case by auto
next
  case (walk_failed ch s e t chs)
  then show ?case by (auto elim: channel_walk.cases)
qed

lemma cross_walk_unique:
  assumes "cross_walk c options destinations ps s g s'"
    and "cross_walk c options destinations ps s g2 s2"
  shows "g2 = g \<and> s2 = s'"
  using assms
proof (induction arbitrary: g2 s2 rule: cross_walk.induct)
  case (cross_done s)
  then show ?case by (auto elim: cross_walk.cases)
next
  case (cross_platform p chs s g t ps rest s')
  from cross_platform.prems cross_platform.hyps(1) obtain ga ta resta where
    "g2 = ga @ resta" "channel_walk p c options chs s ga ta"
    "cross_walk c options destinations ps ta resta s2"
    by (auto elim: cross_walk.cases)
  moreover from this cross_platform.hyps(2) have "ga = g \<and> ta = t"
    using channel_walk_unique by blast
  ultimately show ?case using cross_platform.IH by auto
next
  case (cross_unresolved p e ps s rest s')
  from cross_unresolved.prems cross_unresolved.hyps(1) obtain resta where
    "g2 = Failed p (message_of e) # resta" "cross_walk c options destinations ps s resta s2"
    by (auto elim: cross_walk.cases)
  with cross_unresolved.IH show ?case by auto
qed

lemma channel_walk_segment:
  "channel_walk p c options chs s g s' \<Longrightarrow> segment_ok p g"
  by (induction rule: channel_walk.induct) auto

lemma sendToChannels_walk:
  assumes "sendToChannels p chs c options results s = (e, results', s')"
  shows "\<exists>g. results' = results @ g \<and>
           channel_walk p c options chs s
             (g @ (case e of None \<Rightarrow> [] | Some err \<Rightarrow> [Failed p (message_of err)])) s'"
  using assms
proof (induction chs arbitrary: results s)
  case Nil
  then have "results' = results @ []" "e = None" "s' = s" by simp_all
  then show ?case using walk_done[of p c options s] by auto
next
  case (Cons ch chs)
  obtain r s1 where sm: "sendMessage p ch c options s = (r, s1)"
    by (cases "sendMessage p ch c options s")
  show ?case
  proof (cases r)
    case (Inl err)
    with Cons.prems sm have "results' = results @ []" "e = Some err" "s' = s1" by simp_all
    moreover have "channel_walk p c options (ch # chs) s [Failed p (message_of err)] s1"
      using sm Inl by (auto intro: walk_failed)
    ultimately show ?thesis by auto
  next
    case (Inr result)
    with Cons.prems sm
    have rec: "sendToChannels p chs c options (results @ [Delivered p ch result]) s1 =
                 (e, results', s')" by simp
    from Cons.IH[OF rec] obtain g where
      r': "results' = (results @ [Delivered p ch result]) @ g"
      and w: "channel_walk p c options chs s1
                (g @ (case e of None \<Rightarrow> [] | Some err \<Rightarrow> [Failed p (message_of err)])) s'"
      by blast
    have "channel_walk p c options (ch # chs) s
            (Delivered p ch result #
              (g @ (case e of None \<Rightarrow> [] | Some err \<Rightarrow> [Failed p (message_of err)]))) s'"
      using sm Inr w by (auto intro: walk_delivered)
    then show ?thesis using r' by (intro exI[of _ "Delivered p ch result # g"]) simp
  qed
qed

lemma tryPlatform_walk:
  assumes "tryPlatform p c options results s = (results', s')"
  shows "case resolveChannels options p s of
           Inl e \<Rightarrow> results' = results @ [Failed p (message_of e)] \<and> s' = s
         | Inr chs \<Rightarrow> (\<exists>g. results' = results @ g \<and> channel_walk p c options chs s g s')"
proof (cases "resolveChannels options p s")
  case (Inl e)
  with assms show ?thesis by (simp add: tryPlatform_def)
next
  case (Inr chs)
  obtain e rs t where st: "sendToChannels p chs c options results s = (e, rs, t)"
    by (cases "sendToChannels p chs c options results s") auto
  from sendToChannels_walk[OF st] obtain g where
    rs: "rs = results @ g"
    and w: "channel_walk p c options chs s
              (g @ (case e of None \<Rightarrow> [] | Some err \<Rightarrow> [Failed p (message_of err)])) t"
    by blast
  have "results' = results @ (g @ (case e of None \<Rightarrow> [] | Some err \<Rightarrow> [Failed p (message_of err)]))"
    and "s' = t"
    using assms Inr st rs by (auto simp: tryPlatform_def split: option.splits)
  with w Inr show ?thesis by auto
qed

lemma forPlatforms_walk:
  assumes "store_ok s" and "inj (uuidSource s)"
    and "adds_for Q s0 s" and "distinct ps" and "set ps \<inter> Q = {}"
    and "forPlatforms ps c options results s = (results', s')"
  shows "\<exists>g. results' = results @ g \<and>
           cross_walk c options (\<lambda>p. resolveChannels options p s0) ps s g s'"
  using assms
proof (induction ps arbitrary: results s Q)
  case Nil
  then have "results' = results @ []" "s' = s" by simp_all
  then show ?case using cross_done[of c options _ s] by auto
next
  case (Cons p ps)
  obtain rs t where tp: "tryPlatform p c options results s = (rs, t)"
    by (cases "tryPlatform p c options results s")
  have inv1: "store_ok t" "grows s t"
    using tryPlatform_inv[OF Cons.prems(1,2) tp] by auto
  have inj1: "inj (uuidSource t)" using Cons.prems(2) inv1(2) by (simp add: grows_def)
  have a1: "adds_for {p} s t"
    using tryPlatform_shape[OF Cons.prems(1,2) tp] by blast
  have a0: "adds_for (Q \<union> {p}) s0 t"
    using adds_for_trans[OF Cons.prems(3) a1] .
  have d: "distinct ps" and dj: "set ps \<inter> (Q \<union> {p}) = {}"
    using Cons.prems(4,5) by auto
  have rec: "forPlatforms ps c options rs t = (results', s')"
    using Cons.prems(6) tp by simp
  from Cons.IH[OF inv1(1) inj1 a0 d dj rec] obtain rest where
    r': "results' = rs @ rest"
    and cw: "cross_walk c options (\<lambda>p. resolveChannels options p s0) ps t rest s'"
    by blast
  have "p \<notin> Q" using Cons.prems(5) by auto
  then have res: "resolveChannels options p s = resolveChannels options p s0"
    using resolveChannels_other[OF Cons.prems(3)] by simp
  show ?case
  proof (cases "resolveChannels options p s0")
    case (Inl e)
    with tryPlatform_walk[OF tp] res
    have "rs = results @ [Failed p (message_of e)]" "t = s" by simp_all
    moreover have "cross_walk c options (\<lambda>p. resolveChannels options p s0) (p # ps) s
                     (Failed p (message_of e) # rest) s'"
      using Inl cw \<open>t = s\<close> by (auto intro: cross_unresolved)
    ultimately show ?thesis using r' by (intro exI[of _ "Failed p (message_of e) # rest"]) simp
  next
    case (Inr chs)
    with tryPlatform_walk[OF tp] res obtain g where
      rs: "rs = results @ g" and w: "channel_walk p c options chs s g t"
      by auto
    have "cross_walk c options (\<lambda>p. resolveChannels options p s0) (p # ps) s (g @ rest) s'"
      using Inr w cw by (auto intro: cross_platform)
    then show ?thesis using r' rs by (intro exI[of _ "g @ rest"]) simp
  qed
qed

lemma getActiveChannels_foldl:
  "distinct acc \<Longrightarrow>
   distinct (foldl (\<lambda>channels (k, m).
              if platform m = p \<and> channelId m \<notin> set channels then channels @ [channelId m]
              else channels) acc xs) \<and>
   set (foldl (\<lambda>channels (k, m).
              if platform m = p \<and> channelId m \<notin> set channels then channels @ [channelId m]
              else channels) acc xs) =
     set acc \<union> {channelId m |k m. (k, m) \<in> set xs \<and> platform m = p}"
proof (induction xs arbitrary: acc)
  case Nil
  then show ?case by simp
next
  case (Cons x xs)
  obtain k m where x: "x = (k, m)" by (cases x)
  show ?case
  proof (cases "platform m = p \<and> channelId m \<notin> set acc")
    case True
    then have "distinct (acc @ [channelId m])" using Cons.prems by simp
    from Cons.IH[OF this] True show ?thesis by (auto simp: x)
  next
    case False
    from Cons.IH[OF Cons.prems] False show ?thesis by (auto simp: x)
  qed
qed

lemma getActiveChannels_observed:
  "distinct (getActiveChannels p s) \<and>
   set (getActiveChannels p s) = {channelId m |k m. (k, m) \<in> set (messages s) \<and> platform m = p}"
  using getActiveChannels_foldl[of "[]" p "messages s"] by (simp add: getActiveChannels_def)

text \<open>
  C1, as the code has it. \<open>sendCrossChannelMessage\<close> returns a result list and has no
  error outcome. On a bus whose store is well formed, whose uuid source never repeats and
  whose adapters are registered under distinct names, the result list and the state
  reached are those of the walk over the registered platforms in registration order, each
  platform with its destinations as resolved when the call starts: \<open>options.channels\<close>
  when it is an array, the distinct channel ids of the platform's stored messages when it
  is absent. On each platform the channels are sent to in order, every send that returns
  is recorded as \<open>{platform, channelId, result}\<close>, and the first send that throws is
  recorded as \<open>{platform, error}\<close> and ends the sends to that platform; the walk then
  goes on with the next platform.
\<close>

theorem C1_platform_isolation:
  assumes "store_ok s" and "inj (uuidSource s)" and "distinct (map fst (integrations s))"
    and "sendCrossChannelMessage c options s = (results, s')"
  shows "cross_walk c (defaultOptions options)
           (\<lambda>p. resolveChannels (defaultOptions options) p s)
           (map fst (integrations s)) s results s' \<and>
         (\<forall>p xs. getProp (defaultOptions options) ''channels'' = Inr (JArr xs) \<longrightarrow>
            resolveChannels (defaultOptions options) p s = Inr xs) \<and>
         (\<forall>p v. getProp (defaultOptions options) ''channels'' = Inr v \<longrightarrow> \<not> truthy v \<longrightarrow>
            (\<exists>chs. resolveChannels (defaultOptions options) p s = Inr chs \<and> distinct chs \<and>
               set chs = {channelId m |k m. (k, m) \<in> set (messages s) \<and> platform m = p}))"
proof -
  have run: "forPlatforms (map fst (integrations s)) c (defaultOptions options) [] s =
               (results, s')"
    using assms(4) by (simp add: sendCrossChannelMessage_def)
  have a: "adds_for {} s s" by (rule adds_for_refl)
  from forPlatforms_walk[OF assms(1,2) a assms(3) _ run]
  have 1: "cross_walk c (defaultOptions options)
           (\<lambda>p. resolveChannels (defaultOptions options) p s)
           (map fst (integrations s)) s results s'" by auto
  have 2: "\<forall>p xs. getProp (defaultOptions options) ''channels'' = Inr (JArr xs) \<longrightarrow>
            resolveChannels (defaultOptions options) p s = Inr xs"
    by (simp add: resolveChannels_def)
  have 3: "\<forall>p v. getProp (defaultOptions options) ''channels'' = Inr v \<longrightarrow> \<not> truthy v \<longrightarrow>
            (\<exists>chs. resolveChannels (defaultOptions options) p s = Inr chs \<and> distinct chs \<and>
               set chs = {channelId m |k m. (k, m) \<in> set (messages s) \<and> platform m = p})"
    using getActiveChannels_observed by (simp add: resolveChannels_def)
  show ?thesis using 1 2 3 by (intro conjI)
qed

lemma example_cross_run:
  "sendCrossChannelMessage (JStr ''hi'') example_channels example_two_adapters =
     ([Failed ''slack'' ''boom'',
       Delivered ''telegram'' (JStr ''c1'') (JObj [(''messageId'', JNum 7)]),
       Delivered ''telegram'' (JStr ''c2'') (JObj [(''messageId'', JNum 7)])],
      snd (sendCrossChannelMessage (JStr ''hi'') example_channels example_two_adapters))"
  by (simp add: sendCrossChannelMessage_def example_two_adapters_def example_channels_def
      registerIntegration_def example_bus_def new_manager_def tryPlatform_def
      resolveChannels_def sendMessage_def failing_adapter_def working_adapter_def
      orUuid_def normalizeMessage_def uuidv4_def moment_now_def normalizeTelegram_def
      getMessageType_def getProp2_def with_fields_def js_or_def prod_eq_iff defaultOptions_def)

lemma example_cross_log:
  "sendLog (snd (sendCrossChannelMessage (JStr ''hi'') example_channels example_two_adapters)) =
     [the_call ''slack'' (JStr ''c1'') (JStr ''hi'') example_channels,
      the_call ''telegram'' (JStr ''c1'') (JStr ''hi'') example_channels,
      the_call ''telegram'' (JStr ''c2'') (JStr ''hi'') example_channels]"
  by (simp add: sendCrossChannelMessage_def example_two_adapters_def example_channels_def
      registerIntegration_def example_bus_def new_manager_def tryPlatform_def
      resolveChannels_def sendMessage_def failing_adapter_def working_adapter_def
      orUuid_def normalizeMessage_def uuidv4_def moment_now_def normalizeTelegram_def
      getMessageType_def getProp2_def with_fields_def js_or_def the_call_def defaultOptions_def)

text \<open>
  C1, as stated, fails: the \<open>try\<close> encloses the loop over the channels of one platform.
  With Slack failing on c1, the result holds one error entry for Slack and the adapter is
  never called for the destination (slack, c2).
\<close>

theorem C1_second_channel_skipped:
  "resolveChannels example_channels ''slack'' example_two_adapters =
     Inr [JStr ''c1'', JStr ''c2''] \<and>
   fst (sendCrossChannelMessage (JStr ''hi'') example_channels example_two_adapters) =
     [Failed ''slack'' ''boom'',
      Delivered ''telegram'' (JStr ''c1'') (JObj [(''messageId'', JNum 7)]),
      Delivered ''telegram'' (JStr ''c2'') (JObj [(''messageId'', JNum 7)])] \<and>
   the_call ''slack'' (JStr ''c2'') (JStr ''hi'') example_channels \<notin>
     set (sent_since example_two_adapters
           (snd (sendCrossChannelMessage (JStr ''hi'') example_channels example_two_adapters)))"
proof -
  have 1: "resolveChannels example_channels ''slack'' example_two_adapters =
     Inr [JStr ''c1'', JStr ''c2'']"
    by (simp add: resolveChannels_def example_channels_def)
  have 2: "fst (sendCrossChannelMessage (JStr ''hi'') example_channels example_two_adapters) =
     [Failed ''slack'' ''boom'',
      Delivered ''telegram'' (JStr ''c1'') (JObj [(''messageId'', JNum 7)]),
      Delivered ''telegram'' (JStr ''c2'') (JObj [(''messageId'', JNum 7)])]"
    using example_cross_run by (metis fst_conv)
  have "sendLog example_two_adapters = []"
    by (simp add: example_two_adapters_def registerIntegration_def example_bus_def
        new_manager_def)
  then have 3: "the_call ''slack'' (JStr ''c2'') (JStr ''hi'') example_channels \<notin>
     set (sent_since example_two_adapters
           (snd (sendCrossChannelMessage (JStr ''hi'') example_channels example_two_adapters)))"
    by (simp add: sent_since_def example_cross_log the_call_def)
  show ?thesis using 1 2 3 by (intro conjI)
qed

theorem C1_platform_isolation_witness:
  "store_ok example_two_adapters \<and> inj (uuidSource example_two_adapters) \<and>
   distinct (map fst (integrations example_two_adapters)) \<and>
   cross_walk (JStr ''hi'') example_channels
     (\<lambda>p. resolveChannels example_channels p example_two_adapters)
     [''slack'', ''telegram''] example_two_adapters
     [Failed ''slack'' ''boom'',
      Delivered ''telegram'' (JStr ''c1'') (JObj [(''messageId'', JNum 7)]),
      Delivered ''telegram'' (JStr ''c2'') (JObj [(''messageId'', JNum 7)])]
     (snd (sendCrossChannelMessage (JStr ''hi'') example_channels example_two_adapters)) \<and>
   resolveChannels example_channels ''slack'' example_two_adapters =
     Inr [JStr ''c1'', JStr ''c2'']"
proof -
  have ok: "store_ok example_two_adapters"
    by (simp add: store_ok_def example_two_adapters_def registerIntegration_def
        example_bus_def new_manager_def)
  have inj: "inj (uuidSource example_two_adapters)"
    using inj_example_uuids
    by (simp add: example_two_adapters_def registerIntegration_def example_bus_def
        new_manager_def)
  have keys: "map fst (integrations example_two_adapters) = [''slack'', ''telegram'']"
    by (simp add: example_two_adapters_def registerIntegration_def example_bus_def
        new_manager_def)
  have dist: "distinct (map fst (integrations example_two_adapters))"
    by (simp add: keys)
  have d: "defaultOptions example_channels = example_channels"
    by (simp add: defaultOptions_def example_channels_def)
  have g: "getProp example_channels ''channels'' = Inr (JArr [JStr ''c1'', JStr ''c2''])"
    by (simp add: example_channels_def)
  note walk = C1_platform_isolation[OF ok inj dist example_cross_run, unfolded d keys]
  from walk g have "resolveChannels example_channels ''slack'' example_two_adapters =
     Inr [JStr ''c1'', JStr ''c2'']" by blast
  with walk ok inj dist show ?thesis by blast
qed

subsection \<open>Sending\<close>

text \<open>
  C2. Sending to a platform that has no registered adapter fails with the error
  "No integration found for platform: P" and leaves the whole state as it was: the message
  store is unchanged and no adapter send has been made.
\<close>

theorem C2_unknown_platform:
  assumes "map_of (integrations s) P = None"
  shows "sendMessage P ch c options s =
           (Inl (Error (''No integration found for platform: '' @ P)), s)"
  using assms by (simp add: sendMessage_def)

theorem C2_unknown_platform_witness:
  "map_of (integrations (registerIntegration ''telegram'' (\<lambda>h ch c opts. Inr (JObj []))
      example_bus)) ''mastodon'' = None \<and>
   sendMessage ''mastodon'' (JStr ''c1'') (JStr ''hi'') (JObj [])
      (registerIntegration ''telegram'' (\<lambda>h ch c opts. Inr (JObj [])) example_bus) =
     (Inl (Error ''No integration found for platform: mastodon''),
      registerIntegration ''telegram'' (\<lambda>h ch c opts. Inr (JObj [])) example_bus)"
proof -
  have h: "map_of (integrations (registerIntegration ''telegram'' (\<lambda>h ch c opts. Inr (JObj []))
      example_bus)) ''mastodon'' = None"
    by (simp add: registerIntegration_def new_manager_def example_bus_def)
  show ?thesis using h C2_unknown_platform [OF h] by simp
qed

text \<open>
  C3. Where the claim fails: a Discord adapter is registered and its send succeeds with
  \<open>{messageId: "m1"}\<close>. The synthesized payload has Telegram's shape, the Discord branch
  of the normalizer reads \<open>rawMessage.author.id\<close>, and \<open>sendMessage\<close> throws a
  \<open>TypeError\<close> after the message has gone out: nothing is stored, no event is emitted
  and the adapter's result is lost.
\<close>

theorem C3_discord_send_throws:
  "case sendMessage ''discord'' (JStr ''c1'') (JStr ''hi'') (JObj [])
          (registerIntegration ''discord''
             (\<lambda>h ch c opts. Inr (JObj [(''messageId'', JStr ''m1'')])) (new_manager us cs)) of
     (r, s') \<Rightarrow>
       r = Inl (TypeError (''Cannot read properties of undefined (reading '' @ quoted ''id'' @ '')''))
       \<and> messages s' = [] \<and> emitted s' = []
       \<and> sendLog s' = [\<lparr>call_platform = ''discord'', call_channel = JStr ''c1'',
                          call_content = JStr ''hi'', call_options = JObj []\<rparr>]"
  by (simp add: sendMessage_def registerIntegration_def new_manager_def normalizeMessage_def
      uuidv4_def moment_now_def normalizeDiscord_def getProp2_def orUuid_def defaultOptions_def)

text \<open>
  On Slack the same payload is normalized without an error, but the stored message has
  neither the author id "bot" nor the channel it was sent to.
\<close>

lemma slack_send_stores_undefined_author:
  "case sendMessage ''slack'' (JStr ''c1'') (JStr ''hi'') (JObj [])
          (registerIntegration ''slack''
             (\<lambda>h ch c opts. Inr (JObj [(''messageId'', JStr ''m1'')])) (new_manager us cs)) of
     (r, s') \<Rightarrow>
       r = Inr (JObj [(''messageId'', JStr ''m1'')]) \<and>
       map (\<lambda>(k, m). (author m, channelId m)) (messages s') =
         [(JObj [(''id'', JUndefined), (''username'', JUndefined)], JUndefined)]"
  by (simp add: sendMessage_def registerIntegration_def new_manager_def normalizeMessage_def
      uuidv4_def moment_now_def normalizeSlack_def with_fields_def js_or_def orUuid_def
      defaultOptions_def)

text \<open>
  On Telegram the payload fits its branch: a successful send stores one message whose
  author id is "bot", emits it as \<open>message_sent\<close> and returns the adapter's result. On
  every platform, a send that the adapter fails returns the adapter's error and leaves the
  store and the emitted events as they were.
\<close>

lemma telegram_send_ok:
  assumes reg: "map_of (integrations s) ''telegram'' = Some a"
    and ok: "a (sendLog s) ch c (defaultOptions options) = Inr result"
    and rid: "getProp result ''messageId'' = Inr rid"
    and run: "sendMessage ''telegram'' ch c options s = (r, s')"
  shows "r = Inr result \<and>
         (\<exists>m. messages s' = map_set (id_msg m) m (messages s) \<and>
              emitted s' = emitted s @ [(''message_sent'', m)] \<and>
              getProp (author m) ''id'' = Inr (JStr ''bot'') \<and>
              content m = js_or c (JStr ''[Media]'') \<and> channelId m = ch \<and>
              platform m = ''telegram'')"
proof -
  let ?s1 = "s\<lparr>sendLog := sendLog s @
                [\<lparr>call_platform = ''telegram'', call_channel = ch, call_content = c,
                  call_options = defaultOptions options\<rparr>]\<rparr>"
  obtain mid s2 where o: "orUuid rid ?s1 = (mid, s2)" by (cases "orUuid rid ?s1")
  let ?raw = "JObj [(''text'', c),
                    (''from'', JObj [(''id'', JStr ''bot''),
                                     (''username'', JStr ''UnifiMessenger'')]),
                    (''chat'', JObj [(''id'', ch)]),
                    (''message_id'', mid)]"
  let ?m = "\<lparr>id_msg = uuidSource s2 (uuidDrawn s2), platform = ''telegram'',
             timestamp = clockSource s2 (clockRead s2), processed = False,
             reactions = [], attachments = [],
             content = js_or c (JStr ''[Media]''),
             author = JObj [(''id'', JStr ''bot''), (''username'', JStr ''UnifiMessenger''),
                            (''firstName'', JUndefined), (''lastName'', JUndefined)],
             channelId = ch, channelName = JUndefined, messageId = mid,
             type_msg = JStr ''text''\<rparr>"
  let ?s3 = "s2\<lparr>uuidDrawn := Suc (uuidDrawn s2), clockRead := Suc (clockRead s2)\<rparr>"
  have n: "normalizeMessage ''telegram'' ?raw s2 = (Inr ?m, ?s3)"
    by (simp add: normalizeMessage_def uuidv4_def moment_now_def normalizeTelegram_def
        getMessageType_def getProp2_def with_fields_def js_or_def)
  have d1: "only_draws ?s1 s2" using o by (rule orUuid_only_draws)
  have s': "s' = ?s3\<lparr>messages := map_set (id_msg ?m) ?m (messages ?s3),
                      emitted := emitted ?s3 @ [(''message_sent'', ?m)]\<rparr>"
    and r: "r = Inr result"
    using run reg ok rid o n by (simp_all add: sendMessage_def)
  have "messages s' = map_set (id_msg ?m) ?m (messages s)"
    and "emitted s' = emitted s @ [(''message_sent'', ?m)]"
    using d1 by (simp_all add: s' only_draws_def)
  moreover have "getProp (author ?m) ''id'' = Inr (JStr ''bot'')" by simp
  ultimately show ?thesis using r by (intro conjI exI[of _ ?m]) simp_all
qed

lemma send_adapter_failure:
  assumes "map_of (integrations s) p = Some a"
    and "a (sendLog s) ch c (defaultOptions options) = Inl e"
  shows "fst (sendMessage p ch c options s) = Inl e \<and>
         messages (snd (sendMessage p ch c options s)) = messages s \<and>
         emitted (snd (sendMessage p ch c options s)) = emitted s"
  using assms by (simp add: sendMessage_def)

subsection \<open>The AI trigger\<close>

text \<open>
  C4. For a message with text content, the AI trigger predicate holds exactly when the
  content contains "@ai", or starts with "/ai", or the message's channel id has an agent
  registered.
\<close>

theorem C4_ai_trigger:
  assumes "content m = JStr c"
  shows "shouldProcessWithAI s m =
           Inr ((\<exists>pre post. c = pre @ ''@ai'' @ post) \<or> (\<exists>rest. c = ''/ai'' @ rest) \<or>
                channelId m \<in> fst ` set (aiAgents s))"
  using assms
  by (simp add: shouldProcessWithAI_def includes_sublist startsWith_prefix map_has_def)

theorem C4_ai_trigger_witness:
  "shouldProcessWithAI example_bus
     (example_message ''u1'' ''telegram'' (JNum 42)
        (JStr (''@ai what'' @ [CHR 0x27] @ ''s the weather'')) 0) = Inr True \<and>
   shouldProcessWithAI example_bus
     (example_message ''u2'' ''telegram'' (JNum 42) (JStr ''hello'') 0) = Inr False"
proof -
  let ?w = "''@ai what'' @ [CHR 0x27] @ ''s the weather''"
  let ?m1 = "example_message ''u1'' ''telegram'' (JNum 42) (JStr ?w) 0"
  let ?m2 = "example_message ''u2'' ''telegram'' (JNum 42) (JStr ''hello'') 0"
  have a: "content ?m1 = JStr ?w"
    by (simp add: example_message_def)
  have b: "content ?m2 = JStr ''hello''"
    by (simp add: example_message_def)
  have "includes_str ?w ''@ai''" by simp
  then have e1: "(\<exists>pre post. ?w = pre @ ''@ai'' @ post) = True"
    by (simp only: includes_sublist)
  have "\<not> includes_str ''hello'' ''@ai''" by simp
  then have e2: "(\<exists>pre post. ''hello'' = pre @ ''@ai'' @ post) = False"
    by (simp only: includes_sublist)
  have "\<not> startsWith ''hello'' ''/ai''" by simp
  then have e3: "(\<exists>rest. ''hello'' = ''/ai'' @ rest) = False"
    by (simp only: startsWith_prefix)
  have e4: "(channelId ?m2 \<in> fst ` set (aiAgents example_bus)) = False"
    by (simp add: example_bus_def new_manager_def)
  have 1: "shouldProcessWithAI example_bus ?m1 = Inr True"
    using C4_ai_trigger[OF a, of example_bus] by (simp only: e1 simp_thms)
  have 2: "shouldProcessWithAI example_bus ?m2 = Inr False"
    using C4_ai_trigger[OF b, of example_bus] by (simp only: e2 e3 e4 simp_thms)
  show ?thesis using 1 2 by (rule conjI)
qed



subsection \<open>Normalization example\<close>

text \<open>
  C5. Normalizing the Telegram payload
  \<open>{text: "hi", from: {id: 1, username: "bob"}, chat: {id: 42, title: "Team"}, message_id: 99}\<close>
  succeeds, whatever the state of the bus, with content "hi", author id 1, author username
  "bob", channel id 42, channel name "Team", native message id 99 and type "text".
\<close>

theorem C5_telegram_example:
  "case normalizeMessage ''telegram''
          (JObj [(''text'', JStr ''hi''),
                 (''from'', JObj [(''id'', JNum 1), (''username'', JStr ''bob'')]),
                 (''chat'', JObj [(''id'', JNum 42), (''title'', JStr ''Team'')]),
                 (''message_id'', JNum 99)]) s of
     (Inl e, s') \<Rightarrow> False
   | (Inr m, s') \<Rightarrow>
       content m = JStr ''hi'' \<and>
       getProp (author m) ''id'' = Inr (JNum 1) \<and>
       getProp (author m) ''username'' = Inr (JStr ''bob'') \<and>
       channelId m = JNum 42 \<and>
       channelName m = JStr ''Team'' \<and>
       messageId m = JNum 99 \<and>
       type_msg m = JStr ''text''"
  by (simp add: normalizeMessage_def uuidv4_def moment_now_def normalizeTelegram_def
      getMessageType_def getProp2_def with_fields_def js_or_def)

subsection \<open>Reading the store\<close>

lemma mset_insert_cmp: "mset (insert_cmp cmp x xs) = add_mset x (mset xs)"
  by (induction xs) auto

lemma mset_foldl_insert_cmp:
  "mset (foldl (\<lambda>acc x. insert_cmp cmp x acc) acc xs) = mset acc + mset xs"
  by (induction xs arbitrary: acc) (auto simp: mset_insert_cmp)

lemma mset_array_sort: "mset (array_sort cmp xs) = mset xs"
  by (simp add: array_sort_def mset_foldl_insert_cmp)

lemma set_insert_cmp: "set (insert_cmp cmp x xs) = insert x (set xs)"
  by (induction xs) auto

lemma sorted_insert_by_timestamp:
  "sorted (map timestamp xs) \<Longrightarrow> sorted (map timestamp (insert_cmp by_timestamp x xs))"
  by (induction xs) (auto simp: by_timestamp_def set_insert_cmp)

lemma sorted_foldl_insert_by_timestamp:
  "sorted (map timestamp acc) \<Longrightarrow>
     sorted (map timestamp (foldl (\<lambda>acc x. insert_cmp by_timestamp x acc) acc xs))"
  by (induction xs arbitrary: acc) (auto simp: sorted_insert_by_timestamp)

lemma sorted_array_sort: "sorted (map timestamp (array_sort by_timestamp xs))"
  by (simp add: array_sort_def sorted_foldl_insert_by_timestamp)

lemma getMessages_since:
  "getMessages (no_filters\<lparr>f_since := Some T\<rparr>) s =
     Inr (array_sort by_timestamp (filter (\<lambda>msg. T < timestamp msg) (map snd (messages s))))"
  by (simp add: getMessages_def no_filters_def)

lemma getMessages_platform:
  "P \<noteq> [] \<Longrightarrow> getMessages (no_filters\<lparr>f_platform := JStr P\<rparr>) s =
     Inr (array_sort by_timestamp (filter (\<lambda>msg. platform msg = P) (map snd (messages s))))"
  by (simp add: getMessages_def no_filters_def)

text \<open>A filter field that is falsy is not applied: the empty platform name selects everything.\<close>

lemma getMessages_empty_platform:
  "getMessages (no_filters\<lparr>f_platform := JStr []\<rparr>) s = getMessages no_filters s"
  by (simp add: getMessages_def no_filters_def)

text \<open>
  C6. \<open>getMessages({since: T})\<close> returns, as a collection with multiplicity, exactly the
  stored messages whose timestamp is strictly after \<open>T\<close>; a stored message whose
  timestamp equals \<open>T\<close> is not in the result.
\<close>

theorem C6_since_filter:
  "case getMessages (no_filters\<lparr>f_since := Some T\<rparr>) s of
     Inl e \<Rightarrow> False
   | Inr r \<Rightarrow>
       mset r = filter_mset (\<lambda>msg. T < timestamp msg) (mset (map snd (messages s))) \<and>
       (\<forall>msg \<in> set (map snd (messages s)). timestamp msg = T \<longrightarrow> msg \<notin> set r)"
proof -
  have "set (array_sort by_timestamp (filter (\<lambda>msg. T < timestamp msg) (map snd (messages s))))
        = set (filter (\<lambda>msg. T < timestamp msg) (map snd (messages s)))"
    using mset_array_sort[of by_timestamp "filter (\<lambda>msg. T < timestamp msg) (map snd (messages s))"]
    by (metis set_mset_mset)
  then show ?thesis
    by (auto simp: getMessages_since mset_array_sort)
qed

text \<open>
  C7. For a platform name \<open>P\<close> (a non-empty string: the empty string is falsy and means
  no filter), \<open>getMessages({platform: P})\<close> returns exactly the stored messages of
  platform \<open>P\<close>, in ascending order of timestamp, whatever the insertion order.
\<close>

theorem C7_platform_filter_sorted:
  assumes "P \<noteq> []"
  shows "case getMessages (no_filters\<lparr>f_platform := JStr P\<rparr>) s of
     Inl e \<Rightarrow> False
   | Inr r \<Rightarrow>
       mset r = filter_mset (\<lambda>msg. platform msg = P) (mset (map snd (messages s))) \<and>
       sorted (map timestamp r)"
  using assms by (simp add: getMessages_platform mset_array_sort sorted_array_sort)

theorem C6_since_filter_witness:
  "example_message ''u3'' ''telegram'' (JNum 42) (JStr ''second'') 2000
     \<in> set (map snd (messages example_store)) \<and>
   getMessages (no_filters\<lparr>f_since := Some 2000\<rparr>) example_store =
     Inr [example_message ''u1'' ''telegram'' (JNum 42) (JStr ''third'') 3000]"
proof -
  have "getMessages (no_filters\<lparr>f_since := Some 2000\<rparr>) example_store =
     Inr [example_message ''u1'' ''telegram'' (JNum 42) (JStr ''third'') 3000]"
    by (simp add: getMessages_def no_filters_def example_store_def example_message_def
        array_sort_def)
  then show ?thesis
    using C6_since_filter[of 2000 example_store]
    by (simp add: example_store_def)
qed

theorem C7_platform_filter_sorted_witness:
  "''telegram'' \<noteq> [] \<and>
   getMessages (no_filters\<lparr>f_platform := JStr ''telegram''\<rparr>) example_store =
     Inr [example_message ''u3'' ''telegram'' (JNum 42) (JStr ''second'') 2000,
          example_message ''u1'' ''telegram'' (JNum 42) (JStr ''third'') 3000]"
proof -
  have h: "''telegram'' \<noteq> []" by simp
  have "getMessages (no_filters\<lparr>f_platform := JStr ''telegram''\<rparr>) example_store =
     Inr [example_message ''u3'' ''telegram'' (JNum 42) (JStr ''second'') 2000,
          example_message ''u1'' ''telegram'' (JNum 42) (JStr ''third'') 3000]"
    by (simp add: getMessages_def no_filters_def example_store_def example_message_def
        array_sort_def by_timestamp_def)
  then show ?thesis
    using C7_platform_filter_sorted[OF h, of example_store] by simp
qed

subsection \<open>Reconnection\<close>

lemma handleReconnect_unfold:
  "handleReconnect connect s =
     (if maxReconnectAttempts s \<le> reconnectAttempts s
      then s\<lparr>errors := errors s @ [''Max reconnect attempts reached'']\<rparr>
      else if connect (connectCalls s)
      then s\<lparr>reconnectAttempts := 0,
             timers := timers s @ [reconnectDelay s * (reconnectAttempts s + 1)],
             connectCalls := Suc (connectCalls s)\<rparr>
      else handleReconnect connect
             (s\<lparr>reconnectAttempts := reconnectAttempts s + 1,
                timers := timers s @ [reconnectDelay s * (reconnectAttempts s + 1)],
                connectCalls := Suc (connectCalls s)\<rparr>))"
  by (subst handleReconnect.simps) (simp add: Let_def)

lemma handleReconnect_failing:
  assumes "reconnectAttempts s \<le> maxReconnectAttempts s"
  shows "handleReconnect (\<lambda>k. False) s =
           s\<lparr>reconnectAttempts := maxReconnectAttempts s,
             timers := timers s @ map (\<lambda>k. reconnectDelay s * k)
                                    [reconnectAttempts s + 1..maxReconnectAttempts s],
             connectCalls := connectCalls s +
                             nat (maxReconnectAttempts s - reconnectAttempts s),
             errors := errors s @ [''Max reconnect attempts reached'']\<rparr>"
  using assms
proof (induction "nat (maxReconnectAttempts s - reconnectAttempts s)" arbitrary: s)
  case 0
  then have "reconnectAttempts s = maxReconnectAttempts s" by simp
  then show ?case by (subst handleReconnect_unfold) simp
next
  case (Suc n)
  let ?s3 = "s\<lparr>reconnectAttempts := reconnectAttempts s + 1,
               timers := timers s @ [reconnectDelay s * (reconnectAttempts s + 1)],
               connectCalls := Suc (connectCalls s)\<rparr>"
  from Suc.hyps(2) have lt: "reconnectAttempts s < maxReconnectAttempts s" by simp
  have ih: "handleReconnect (\<lambda>k. False) ?s3 =
         ?s3\<lparr>reconnectAttempts := maxReconnectAttempts ?s3,
           timers := timers ?s3 @ map (\<lambda>k. reconnectDelay ?s3 * k)
                                  [reconnectAttempts ?s3 + 1..maxReconnectAttempts ?s3],
           connectCalls := connectCalls ?s3 +
                           nat (maxReconnectAttempts ?s3 - reconnectAttempts ?s3),
           errors := errors ?s3 @ [''Max reconnect attempts reached'']\<rparr>"
    using Suc.hyps(2) lt by (intro Suc.hyps(1)) simp_all
  have up: "[reconnectAttempts s + 1..maxReconnectAttempts s] =
            (reconnectAttempts s + 1) # [reconnectAttempts s + 1 + 1..maxReconnectAttempts s]"
    using lt by (simp add: upto_rec1)
  have n: "nat (maxReconnectAttempts s - reconnectAttempts s) =
           Suc (nat (maxReconnectAttempts s - (reconnectAttempts s + 1)))"
    using lt by simp
  have "handleReconnect (\<lambda>k. False) s = handleReconnect (\<lambda>k. False) ?s3"
    using lt by (subst handleReconnect_unfold) simp
  also note ih
  finally show ?case by (simp add: up n)
qed

lemma handleReconnect_calls:
  "connectCalls (handleReconnect connect s) \<le>
     connectCalls s + nat (maxReconnectAttempts s - reconnectAttempts s)"
proof (induction "nat (maxReconnectAttempts s - reconnectAttempts s)" arbitrary: s)
  case 0
  then have "maxReconnectAttempts s \<le> reconnectAttempts s" by simp
  then show ?case by (subst handleReconnect_unfold) simp
next
  case (Suc n)
  let ?s3 = "s\<lparr>reconnectAttempts := reconnectAttempts s + 1,
               timers := timers s @ [reconnectDelay s * (reconnectAttempts s + 1)],
               connectCalls := Suc (connectCalls s)\<rparr>"
  from Suc.hyps(2) have lt: "reconnectAttempts s < maxReconnectAttempts s" by simp
  show ?case
  proof (cases "connect (connectCalls s)")
    case True
    with lt show ?thesis by (subst handleReconnect_unfold) simp
  next
    case False
    have "connectCalls (handleReconnect connect ?s3) \<le>
            connectCalls ?s3 + nat (maxReconnectAttempts ?s3 - reconnectAttempts ?s3)"
      using Suc.hyps(2) lt by (intro Suc.hyps(1)) simp
    moreover have "handleReconnect connect s = handleReconnect connect ?s3"
      using lt False by (subst handleReconnect_unfold) simp
    ultimately show ?thesis using lt by simp
  qed
qed

text \<open>
  C9. From a state with no reconnect attempt pending and a maximum \<open>M \<ge> 0\<close> (5 after
  the constructor), when \<open>connect()\<close> always fails, \<open>handleReconnect\<close> calls it exactly
  \<open>M\<close> times, waits \<open>reconnectDelay * k\<close> before the attempt number \<open>k\<close> (1000 ms
  times the attempt count after the constructor), emits the error "Max reconnect attempts
  reached" once and returns. Whatever \<open>connect()\<close> answers, it is never called more than
  \<open>M\<close> times.
\<close>

theorem C9_reconnect_bound:
  assumes "reconnectAttempts s = 0" and "0 \<le> maxReconnectAttempts s"
  shows "timers (handleReconnect (\<lambda>k. False) s) =
           timers s @ map (\<lambda>k. reconnectDelay s * k) [1..maxReconnectAttempts s] \<and>
         connectCalls (handleReconnect (\<lambda>k. False) s) =
           connectCalls s + nat (maxReconnectAttempts s) \<and>
         errors (handleReconnect (\<lambda>k. False) s) =
           errors s @ [''Max reconnect attempts reached''] \<and>
         (\<forall>connect. connectCalls (handleReconnect connect s) \<le>
                      connectCalls s + nat (maxReconnectAttempts s))"
proof -
  have le: "reconnectAttempts s \<le> maxReconnectAttempts s" using assms by simp
  have "\<forall>connect. connectCalls (handleReconnect connect s) \<le>
                      connectCalls s + nat (maxReconnectAttempts s)"
    using handleReconnect_calls[of _ s] assms by simp
  then show ?thesis
    using assms by (simp add: handleReconnect_failing[OF le])
qed

theorem C9_reconnect_bound_witness:
  "timers (handleReconnect (\<lambda>k. False) new_integration) = [1000, 2000, 3000, 4000, 5000] \<and>
   connectCalls (handleReconnect (\<lambda>k. False) new_integration) = 5 \<and>
   errors (handleReconnect (\<lambda>k. False) new_integration) = [''Max reconnect attempts reached'']"
proof -
  have a: "reconnectAttempts new_integration = 0" by (simp add: new_integration_def)
  have b: "0 \<le> maxReconnectAttempts new_integration" by (simp add: new_integration_def)
  have u: "[1..5::int] = [1, 2, 3, 4, 5]" by code_simp
  show ?thesis
    using C9_reconnect_bound[OF a b] by (simp add: new_integration_def u)
qed

end
